theory Spec2Isabelle
  imports Complex_Main "HOL-Library.Log_Nat"
begin

section \<open>Overview\<close>

text \<open>
  A model of the income tracker of \<open>src/App.jsx\<close>: the progressive tax computation
  (\<open>calculateTax\<close>, \<open>taxBreakdown\<close>), the classification of a bank alert
  (\<open>isUserReceiver\<close>, \<open>isUserSender\<close>, \<open>isDebitTransaction\<close>, \<open>isCreditTransaction\<close>), the
  extraction of the fields of a transaction (\<open>extractAmount\<close>, \<open>extractDate\<close>,
  \<open>extractDescription\<close>, \<open>extractBank\<close>, \<open>parseSMS\<close>) and the handler that adds a
  transaction (\<open>handleAddTransaction\<close>, \<open>acceptCredit\<close>).

  \<^item> The tax engine is given twice: in exact real arithmetic, the arithmetic the
    specification describes, and in binary64 arithmetic, with the rounding of every
    operation of the program written out. The amounts read from a text are exact reals.
    Overflow to \<open>Infinity\<close> is not modelled.
  \<^item> Strings are lists of 8-bit characters, read as the code units 0 to 255.
  \<^item> The regular expressions of the program are given a semantics of their own, after the
    backtracking matcher of the language standard; the expressions that the program builds
    from a text at run time go through a parser of the pattern syntax.
  \<^item> An exception is a value of type \<open>fault\<close>.
  \<^item> What a call reads from outside the program (the clock, a fresh identifier, the
    outcome of the storage) is a record \<open>world\<close>; the component state that the handlers
    read and write is a record \<open>app_state\<close>, passed in and returned.
\<close>

section \<open>Tax engine\<close>

text \<open>
  This section is the tax engine in exact real arithmetic (``non-negative real arithmetic;
  no rounding inside the loop''); the section after it is the same code with the rounding
  of the program's binary64 numbers. The only non-finite number the code writes down is
  the \<open>Infinity\<close> limit of the last bracket, which gets a constructor of its own.
\<close>

datatype bound = Finite real | Infinity

record bracket =
  limit :: bound
  rate :: real

text \<open>The breakdown rows are \<open>{ ...bracket, taxable, tax }\<close>: a bracket extended by two fields.\<close>

record breakdown_row = bracket +
  taxable :: real
  tax :: real

definition TAX_BRACKETS :: "bracket list" where
  "TAX_BRACKETS =
     [\<lparr>limit = Finite 800000, rate = 0\<rparr>,
      \<lparr>limit = Finite 3000000, rate = 15 / 100\<rparr>,
      \<lparr>limit = Finite 12000000, rate = 18 / 100\<rparr>,
      \<lparr>limit = Finite 25000000, rate = 21 / 100\<rparr>,
      \<lparr>limit = Finite 50000000, rate = 23 / 100\<rparr>,
      \<lparr>limit = Infinity, rate = 25 / 100\<rparr>]"

text \<open>
  The \<open>for ... of\<close> loop of \<open>calculateTax\<close>, carrying \<open>tax\<close> and \<open>previousLimit\<close>.
  \<open>income <= Infinity\<close> holds for every real income, so the last bracket always breaks;
  \<open>previousLimit\<close> is therefore only ever assigned a finite limit.
\<close>

fun calculateTax_loop :: "real \<Rightarrow> bracket list \<Rightarrow> real \<Rightarrow> real \<Rightarrow> real" where
  "calculateTax_loop income [] t previousLimit = t"
| "calculateTax_loop income (b # bs) t previousLimit =
     (case limit b of
        Infinity \<Rightarrow> t + (income - previousLimit) * rate b
      | Finite l \<Rightarrow>
          if income \<le> l then t + (income - previousLimit) * rate b
          else calculateTax_loop income bs (t + (l - previousLimit) * rate b) l)"

definition calculateTax :: "real \<Rightarrow> real" where
  "calculateTax income = calculateTax_loop income TAX_BRACKETS 0 0"

text \<open>
  \<open>bracket.limit === Infinity ? remaining : Math.max(Math.min(bracket.limit - previousLimit, remaining), 0)\<close>.
  After an unbounded bracket \<open>previousLimit\<close> is \<open>Infinity\<close>; a finite limit minus
  \<open>Infinity\<close> is \<open>-Infinity\<close>, which \<open>Math.min\<close> keeps and \<open>Math.max(_, 0)\<close> turns into 0.
\<close>

fun bracketCap :: "bound \<Rightarrow> bound \<Rightarrow> real \<Rightarrow> real" where
  "bracketCap Infinity previousLimit remaining = remaining"
| "bracketCap (Finite l) (Finite p) remaining = max (min (l - p) remaining) 0"
| "bracketCap (Finite l) Infinity remaining = 0"

text \<open>The \<open>map\<close> callback of \<open>taxBreakdown\<close> with its two captured variables made explicit.\<close>

fun taxBreakdown_loop :: "real \<Rightarrow> bound \<Rightarrow> bracket list \<Rightarrow> breakdown_row list" where
  "taxBreakdown_loop remaining previousLimit [] = []"
| "taxBreakdown_loop remaining previousLimit (b # bs) =
     (let cap = bracketCap (limit b) previousLimit remaining;
          tb = max (min remaining cap) 0
      in \<lparr>limit = limit b, rate = rate b, taxable = tb, tax = tb * rate b\<rparr>
           # taxBreakdown_loop (remaining - tb) (limit b) bs)"

definition taxBreakdown :: "real \<Rightarrow> breakdown_row list" where
  "taxBreakdown totalIncome = taxBreakdown_loop totalIncome (Finite 0) TAX_BRACKETS"

definition bracket_of :: "breakdown_row \<Rightarrow> bracket" where
  "bracket_of r = \<lparr>limit = limit r, rate = rate r\<rparr>"

text \<open>Limits ascend from \<open>p\<close> up to the first unbounded bracket.\<close>

fun ascending :: "real \<Rightarrow> bracket list \<Rightarrow> bool" where
  "ascending p [] = True"
| "ascending p (b # bs) =
     (case limit b of Infinity \<Rightarrow> True | Finite l \<Rightarrow> p \<le> l \<and> ascending l bs)"

section \<open>The tax engine in binary64 arithmetic\<close>

text \<open>
  The numbers of the program are IEEE 754 binary64 numbers: the finite ones are the reals
  \<open>m * 2 ^ e\<close> with \<open>\<bar>m\<bar> < 2 ^ 53\<close> and \<open>- 1074 \<le> e \<le> 971\<close>. Each \<open>+\<close>, \<open>-\<close> and \<open>*\<close> of the
  program returns the binary64 number nearest to the exact result, and of two nearest ones
  the one with the even \<open>m\<close>; a decimal literal such as \<open>0.15\<close> stands for the binary64
  number nearest to it.

  Rounding a real to the nearest integer, a tie going to the even one:
\<close>

definition round_half_even :: "real \<Rightarrow> int" where
  "round_half_even y =
     (let n = \<lfloor>y\<rfloor>; d = y - of_int n
      in if d < 1 / 2 then n else if 1 / 2 < d then n + 1 else if even n then n else n + 1)"

text \<open>
  Multiplied by \<open>2 ^ 1074\<close> every binary64 number is an integer. Of a real \<open>x\<close> scaled that
  way, rounding keeps the 53 leading binary digits of the integer part: the results are
  \<open>2 ^ ulp_exp x\<close> apart, and they are 1 apart when the integer part has no more than 53
  digits (which includes the subnormal numbers).
\<close>

definition b64_scale :: real where
  "b64_scale = 2 ^ 1074"

definition ulp_exp :: "real \<Rightarrow> nat" where
  "ulp_exp x = nat (bitlen \<lfloor>\<bar>x\<bar> * b64_scale\<rfloor> - 53)"

text \<open>
  The binary64 result of an operation whose exact result is \<open>x\<close>. A result of magnitude
  \<open>2 ^ 1024\<close> or more is \<open>Infinity\<close> in the program and is not represented here, nor is the
  sign of a zero; the operations evaluated in the statements below stay below that size.
\<close>

definition fl :: "real \<Rightarrow> real" where
  "fl x = of_int (round_half_even (x * b64_scale / 2 ^ ulp_exp x)) * 2 ^ ulp_exp x / b64_scale"

text \<open>The finite binary64 numbers are the reals that rounding leaves as they are.\<close>

definition is_b64 :: "real \<Rightarrow> bool" where
  "is_b64 x \<longleftrightarrow> fl x = x \<and> \<bar>x\<bar> < 2 ^ 1024"

text \<open>The table as the program holds it: each rate literal is a binary64 number.\<close>

definition TAX_BRACKETS_b64 :: "bracket list" where
  "TAX_BRACKETS_b64 = map (\<lambda>b. b\<lparr>rate := fl (rate b)\<rparr>) TAX_BRACKETS"

text \<open>
  \<open>tax += (income - previousLimit) * bracket.rate\<close> and
  \<open>tax += (bracket.limit - previousLimit) * bracket.rate\<close>: a subtraction, a multiplication
  and an addition, each rounded. The comparison \<open>income <= bracket.limit\<close> is exact.
\<close>

fun calculateTax_loop_b64 :: "real \<Rightarrow> bracket list \<Rightarrow> real \<Rightarrow> real \<Rightarrow> real" where
  "calculateTax_loop_b64 income [] t previousLimit = t"
| "calculateTax_loop_b64 income (b # bs) t previousLimit =
     (case limit b of
        Infinity \<Rightarrow> fl (t + fl (fl (income - previousLimit) * rate b))
      | Finite l \<Rightarrow>
          if income \<le> l then fl (t + fl (fl (income - previousLimit) * rate b))
          else calculateTax_loop_b64 income bs (fl (t + fl (fl (l - previousLimit) * rate b))) l)"

definition calculateTax_b64 :: "real \<Rightarrow> real" where
  "calculateTax_b64 income = calculateTax_loop_b64 income TAX_BRACKETS_b64 0 0"

text \<open>
  In the breakdown \<open>bracket.limit - previousLimit\<close>, \<open>taxable * bracket.rate\<close> and
  \<open>remaining -= taxable\<close> are rounded; \<open>Math.min\<close> and \<open>Math.max\<close> return one of their
  arguments.
\<close>

fun bracketCap_b64 :: "bound \<Rightarrow> bound \<Rightarrow> real \<Rightarrow> real" where
  "bracketCap_b64 Infinity previousLimit remaining = remaining"
| "bracketCap_b64 (Finite l) (Finite p) remaining = max (min (fl (l - p)) remaining) 0"
| "bracketCap_b64 (Finite l) Infinity remaining = 0"

fun taxBreakdown_loop_b64 :: "real \<Rightarrow> bound \<Rightarrow> bracket list \<Rightarrow> breakdown_row list" where
  "taxBreakdown_loop_b64 remaining previousLimit [] = []"
| "taxBreakdown_loop_b64 remaining previousLimit (b # bs) =
     (let cap = bracketCap_b64 (limit b) previousLimit remaining;
          tb = max (min remaining cap) 0
      in \<lparr>limit = limit b, rate = rate b, taxable = tb, tax = fl (tb * rate b)\<rparr>
           # taxBreakdown_loop_b64 (fl (remaining - tb)) (limit b) bs)"

definition taxBreakdown_b64 :: "real \<Rightarrow> breakdown_row list" where
  "taxBreakdown_b64 totalIncome = taxBreakdown_loop_b64 totalIncome (Finite 0) TAX_BRACKETS_b64"

text \<open>
  The sum of a list of numbers as the program would take it,
  \<open>xs.reduce((s, x) => s + x, 0)\<close>: from left to right, every addition rounded.
\<close>

definition sum_b64 :: "real list \<Rightarrow> real" where
  "sum_b64 xs = foldl (\<lambda>s x. fl (s + x)) 0 xs"

section \<open>Strings\<close>

text \<open>
  A JavaScript string is modelled as a \<open>string\<close>: a list of 8-bit characters, each read
  as the UTF-16 code unit of the same number (the Latin-1 range). Texts with code units
  above 255 are outside the model. Within this range \<open>toLowerCase\<close> moves A to Z and the
  accented capitals 192 to 222 (but not the multiplication sign 215) up by 32. Upper case
  is its inverse on the letters that have an upper case in the range; the three letters
  whose upper case lies outside it (181, 223, 255) are left as they are, which does not
  change which characters of the range are equal up to case.
\<close>

definition code_unit :: "char \<Rightarrow> nat" where
  "code_unit c = of_char c"

definition isWhiteSpace :: "char \<Rightarrow> bool" where
  "isWhiteSpace c = (code_unit c \<in> {9, 10, 11, 12, 13, 32, 160})"

definition isLineTerminator :: "char \<Rightarrow> bool" where
  "isLineTerminator c = (code_unit c = 10 \<or> code_unit c = 13)"

definition isDigit :: "char \<Rightarrow> bool" where
  "isDigit c = (48 \<le> code_unit c \<and> code_unit c \<le> 57)"

definition isWordChar :: "char \<Rightarrow> bool" where
  "isWordChar c =
     ((97 \<le> code_unit c \<and> code_unit c \<le> 122) \<or> (65 \<le> code_unit c \<and> code_unit c \<le> 90)
      \<or> isDigit c \<or> code_unit c = 95)"

definition toLowerCase_char :: "char \<Rightarrow> char" where
  "toLowerCase_char c =
     (if (65 \<le> code_unit c \<and> code_unit c \<le> 90) \<or> (192 \<le> code_unit c \<and> code_unit c \<le> 222 \<and> code_unit c \<noteq> 215)
      then char_of (code_unit c + 32) else c)"

definition toUpperCase_char :: "char \<Rightarrow> char" where
  "toUpperCase_char c =
     (if (97 \<le> code_unit c \<and> code_unit c \<le> 122) \<or> (224 \<le> code_unit c \<and> code_unit c \<le> 254 \<and> code_unit c \<noteq> 247)
      then char_of (code_unit c - 32) else c)"

definition toLowerCase :: "string \<Rightarrow> string" where
  "toLowerCase s = map toLowerCase_char s"

definition trim :: "string \<Rightarrow> string" where
  "trim s = rev (dropWhile isWhiteSpace (rev (dropWhile isWhiteSpace s)))"

fun includes_str :: "string \<Rightarrow> string \<Rightarrow> bool" where
  "includes_str [] k = (k = [])"
| "includes_str (c # cs) k = (take (length k) (c # cs) = k \<or> includes_str cs k)"


section \<open>Regular expressions\<close>

datatype cls_item =
    CChar char | CRange char char
  | CSpace | CDigit | CWord | CNotSpace | CNotDigit | CNotWord

datatype regex =
    Eps
  | Chr char
  | Dot
  | Cls bool "cls_item list"
  | WordB bool
  | Bol
  | Eol
  | Seq regex regex
  | Alt regex regex
  | Star bool regex
  | Plus bool regex
  | Opt bool regex
  | Group nat regex

text \<open>
  \<open>Cls neg items\<close> is a character class, inverted when \<open>neg\<close> holds; \<open>WordB True\<close> is
  \<open>\b\<close> and \<open>WordB False\<close> is \<open>\B\<close>; the flag of \<open>Star\<close>, \<open>Plus\<close> and \<open>Opt\<close> is
  greediness; \<open>Group n r\<close> is the capturing group number \<open>n\<close>.
\<close>

text \<open>Canonicalize of the language standard: upper case under the \<open>i\<close> flag.\<close>

definition canonicalize :: "bool \<Rightarrow> char \<Rightarrow> char" where
  "canonicalize ignoreCase c = (if ignoreCase then toUpperCase_char c else c)"

definition chars_between :: "char \<Rightarrow> char \<Rightarrow> char list" where
  "chars_between a b = map char_of [code_unit a ..< Suc (code_unit b)]"

fun cls_item_match :: "bool \<Rightarrow> char \<Rightarrow> cls_item \<Rightarrow> bool" where
  "cls_item_match i c (CChar a) = (canonicalize i a = canonicalize i c)"
| "cls_item_match i c (CRange a b) =
     list_ex (\<lambda>x. canonicalize i x = canonicalize i c) (chars_between a b)"
| "cls_item_match i c CSpace = isWhiteSpace c"
| "cls_item_match i c CDigit = isDigit c"
| "cls_item_match i c CWord = isWordChar c"
| "cls_item_match i c CNotSpace = (\<not> isWhiteSpace c)"
| "cls_item_match i c CNotDigit = (\<not> isDigit c)"
| "cls_item_match i c CNotWord = (\<not> isWordChar c)"

text \<open>
  A match state is the end index reached and the captures recorded so far (newest first):
  group number, start index, end index.
\<close>

type_synonym mstate = "nat \<times> (nat \<times> nat \<times> nat) list"

definition one_char :: "string \<Rightarrow> (char \<Rightarrow> bool) \<Rightarrow> mstate \<Rightarrow> mstate list" where
  "one_char s p st =
     (if fst st < length s \<and> p (s ! fst st) then [(Suc (fst st), snd st)] else [])"

definition isWordCharAt :: "string \<Rightarrow> int \<Rightarrow> bool" where
  "isWordCharAt s e = (if e = -1 \<or> e = int (length s) then False else isWordChar (s ! nat e))"

fun groups_of :: "regex \<Rightarrow> nat list" where
  "groups_of (Seq r1 r2) = groups_of r1 @ groups_of r2"
| "groups_of (Alt r1 r2) = groups_of r1 @ groups_of r2"
| "groups_of (Star g r) = groups_of r"
| "groups_of (Plus g r) = groups_of r"
| "groups_of (Opt g r) = groups_of r"
| "groups_of (Group n r) = n # groups_of r"
| "groups_of r = []"

definition clear_groups :: "nat list \<Rightarrow> mstate \<Rightarrow> mstate" where
  "clear_groups ns st = (fst st, filter (\<lambda>c. fst c \<notin> set ns) (snd st))"

text \<open>
  RepeatMatcher with minimum 0 and no maximum: an iteration that matches the empty string
  is rejected, so every iteration advances and the remaining length bounds their number.
  The results are in the order in which backtracking tries them.
\<close>

fun repeat :: "nat \<Rightarrow> (mstate \<Rightarrow> mstate list) \<Rightarrow> bool \<Rightarrow> mstate \<Rightarrow> mstate list" where
  "repeat 0 step greedy st = [st]"
| "repeat (Suc n) step greedy st =
     (let more = concat (map (\<lambda>st'. if fst st' = fst st then [] else repeat n step greedy st')
                           (step st))
      in if greedy then more @ [st] else st # more)"

fun matcher :: "bool \<Rightarrow> string \<Rightarrow> regex \<Rightarrow> mstate \<Rightarrow> mstate list" where
  "matcher i s Eps st = [st]"
| "matcher i s (Chr a) st = one_char s (\<lambda>c. canonicalize i c = canonicalize i a) st"
| "matcher i s Dot st = one_char s (\<lambda>c. \<not> isLineTerminator c) st"
| "matcher i s (Cls neg items) st = one_char s (\<lambda>c. list_ex (cls_item_match i c) items \<noteq> neg) st"
| "matcher i s (WordB pos) st =
     (if (isWordCharAt s (int (fst st) - 1) \<noteq> isWordCharAt s (int (fst st))) = pos
      then [st] else [])"
| "matcher i s Bol st = (if fst st = 0 then [st] else [])"
| "matcher i s Eol st = (if fst st = length s then [st] else [])"
| "matcher i s (Seq r1 r2) st = concat (map (matcher i s r2) (matcher i s r1 st))"
| "matcher i s (Alt r1 r2) st = matcher i s r1 st @ matcher i s r2 st"
| "matcher i s (Star greedy r) st =
     repeat (length s - fst st) (\<lambda>x. matcher i s r (clear_groups (groups_of r) x)) greedy st"
| "matcher i s (Plus greedy r) st =
     concat (map (\<lambda>x. repeat (length s - fst x)
                         (\<lambda>y. matcher i s r (clear_groups (groups_of r) y)) greedy x)
                (matcher i s r (clear_groups (groups_of r) st)))"
| "matcher i s (Opt greedy r) st =
     (let once = filter (\<lambda>st'. fst st' \<noteq> fst st) (matcher i s r (clear_groups (groups_of r) st))
      in if greedy then once @ [st] else st # once)"
| "matcher i s (Group n r) st =
     map (\<lambda>st'. (fst st', (n, fst st, fst st') # snd st')) (matcher i s r st)"

text \<open>
  A compiled regular expression: the pattern and its \<open>i\<close> flag. None of the expressions of
  the program is global or sticky, so a search always starts at index 0.
\<close>

record regexp =
  pattern :: regex
  ignoreCase :: bool

text \<open>The first match starting at index \<open>k\<close> or, failing that, at a later index.\<close>

fun exec_from :: "regexp \<Rightarrow> string \<Rightarrow> nat \<Rightarrow> nat \<Rightarrow> (nat \<times> mstate) option" where
  "exec_from re s k 0 =
     (case matcher (ignoreCase re) s (pattern re) (k, []) of [] \<Rightarrow> None | st # _ \<Rightarrow> Some (k, st))"
| "exec_from re s k (Suc n) =
     (case matcher (ignoreCase re) s (pattern re) (k, []) of
        [] \<Rightarrow> exec_from re s (Suc k) n
      | st # _ \<Rightarrow> Some (k, st))"

definition exec :: "regexp \<Rightarrow> string \<Rightarrow> (nat \<times> mstate) option" where
  "exec re s = exec_from re s 0 (length s)"

text \<open>\<open>RegExp.prototype.test\<close>.\<close>

definition test :: "regexp \<Rightarrow> string \<Rightarrow> bool" where
  "test re s = (exec re s \<noteq> None)"

text \<open>
  \<open>String.prototype.match\<close> with a non-global expression, read at index \<open>n\<close> of the
  result: \<open>None\<close> stands for both \<open>null?.[n]\<close> and an unset group, which are \<open>undefined\<close>.
\<close>

definition match_group :: "regexp \<Rightarrow> string \<Rightarrow> nat \<Rightarrow> string option" where
  "match_group re s n =
     (case exec re s of
        None \<Rightarrow> None
      | Some (start, e, caps) \<Rightarrow>
          (case map_of caps n of
             None \<Rightarrow> None
           | Some (a, b) \<Rightarrow> Some (take (b - a) (drop a s))))"

text \<open>A sequence and an alternation of several expressions, nested to the right.\<close>

fun seq_of :: "regex list \<Rightarrow> regex" where
  "seq_of [] = Eps"
| "seq_of [r] = r"
| "seq_of (r # rs) = Seq r (seq_of rs)"

fun alt_of :: "regex list \<Rightarrow> regex" where
  "alt_of [] = Eps"
| "alt_of [r] = r"
| "alt_of (r # rs) = Alt r (alt_of rs)"

text \<open>A run of literal characters.\<close>

definition lit :: "string \<Rightarrow> regex list" where
  "lit s = map Chr s"


section \<open>Compiling a pattern text\<close>

text \<open>
  \<open>new RegExp(source, 'i')\<close> parses its source when it is called and throws a
  \<open>SyntaxError\<close> when the source is not a pattern. The parser below reads the source one
  character at a time, as a state machine with a stack of open groups. It covers
  literals, \<open>.\<close>, \<open>^\<close>, \<open>$\<close>, \<open>|\<close>, groups, the quantifiers \<open>*\<close>, \<open>+\<close>, \<open>?\<close> and their lazy
  forms, character classes with ranges, and the escapes \<open>\b \B \s \S \d \D \w \W \n \t \r \f \v\<close>
  and identity escapes. A source that uses anything else (counted quantifiers, back
  references, look-around, named groups, \<open>\0 \x \u \c \k\<close>) is reported as \<open>OutsideFragment\<close>.
\<close>

datatype fault = SyntaxError | OutsideFragment | StorageFailure

text \<open>
  \<open>SyntaxError\<close> is the exception of the \<open>RegExp\<close> constructor and \<open>StorageFailure\<close> a
  rejected \<open>storage.set\<close>. \<open>OutsideFragment\<close> is no exception of the program: it marks a
  pattern source that this model does not interpret.
\<close>

datatype qstate = QNone | QAtom | QQuantified | QLazy | QAssertion

record frame =
  alts :: "regex list"
  terms :: "regex list"
  quant :: qstate
  group_no :: "nat option"

datatype pend = PNone | PChar char | PDash char | PEscaped | PEscapedDash

datatype pmode =
    Normal | Escape | GroupOpen | GroupQ | Brace
  | ClassStart | InClass bool "cls_item list" pend | ClassEscape bool "cls_item list"

record pstate =
  pmode :: pmode
  cur :: frame
  stack :: "frame list"
  ngroups :: nat

definition backslash :: char where
  "backslash = CHR 0x5C"

definition empty_frame :: "nat option \<Rightarrow> frame" where
  "empty_frame g = \<lparr>alts = [], terms = [], quant = QNone, group_no = g\<rparr>"

definition close_frame :: "frame \<Rightarrow> regex" where
  "close_frame fr =
     (let r = alt_of (rev (seq_of (rev (terms fr)) # alts fr))
      in case group_no fr of None \<Rightarrow> r | Some n \<Rightarrow> Group n r)"

definition push_term :: "regex \<Rightarrow> qstate \<Rightarrow> pstate \<Rightarrow> pstate" where
  "push_term r q st = st\<lparr>pmode := Normal, cur := (cur st)\<lparr>terms := r # terms (cur st), quant := q\<rparr>\<rparr>"

definition quantify :: "(regex \<Rightarrow> regex) \<Rightarrow> pstate \<Rightarrow> fault + pstate" where
  "quantify q st =
     (case terms (cur st) of
        [] \<Rightarrow> Inl SyntaxError
      | r # rs \<Rightarrow>
          if quant (cur st) = QAtom
          then Inr (st\<lparr>cur := (cur st)\<lparr>terms := q r # rs, quant := QQuantified\<rparr>\<rparr>)
          else Inl SyntaxError)"

fun lazy :: "regex \<Rightarrow> regex" where
  "lazy (Star g r) = Star False r"
| "lazy (Plus g r) = Plus False r"
| "lazy (Opt g r) = Opt False r"
| "lazy r = r"

definition make_lazy :: "pstate \<Rightarrow> fault + pstate" where
  "make_lazy st =
     (case terms (cur st) of
        [] \<Rightarrow> Inl SyntaxError
      | r # rs \<Rightarrow> Inr (st\<lparr>cur := (cur st)\<lparr>terms := lazy r # rs, quant := QLazy\<rparr>\<rparr>))"

definition open_group :: "bool \<Rightarrow> pstate \<Rightarrow> pstate" where
  "open_group capturing st =
     (if capturing
      then st\<lparr>pmode := Normal, cur := empty_frame (Some (Suc (ngroups st))),
              stack := cur st # stack st, ngroups := Suc (ngroups st)\<rparr>
      else st\<lparr>pmode := Normal, cur := empty_frame None, stack := cur st # stack st\<rparr>)"

definition close_group :: "pstate \<Rightarrow> fault + pstate" where
  "close_group st =
     (case stack st of
        [] \<Rightarrow> Inl SyntaxError
      | parent # rest \<Rightarrow>
          Inr (st\<lparr>pmode := Normal,
                  cur := parent\<lparr>terms := close_frame (cur st) # terms parent, quant := QAtom\<rparr>,
                  stack := rest\<rparr>))"

definition normal_step :: "char \<Rightarrow> pstate \<Rightarrow> fault + pstate" where
  "normal_step c st =
     (if c = backslash then Inr (st\<lparr>pmode := Escape\<rparr>)
      else if c = CHR ''('' then Inr (st\<lparr>pmode := GroupOpen\<rparr>)
      else if c = CHR '')'' then close_group st
      else if c = CHR ''|'' then
        Inr (st\<lparr>pmode := Normal,
                cur := (cur st)\<lparr>alts := seq_of (rev (terms (cur st))) # alts (cur st),
                                terms := [], quant := QNone\<rparr>\<rparr>)
      else if c = CHR ''*'' then quantify (Star True) st
      else if c = CHR ''+'' then quantify (Plus True) st
      else if c = CHR ''?'' then
        (if quant (cur st) = QQuantified then make_lazy st else quantify (Opt True) st)
      else if c = CHR ''{'' then Inr (st\<lparr>pmode := Brace\<rparr>)
      else if c = CHR ''['' then Inr (st\<lparr>pmode := ClassStart\<rparr>)
      else if c = CHR ''.'' then Inr (push_term Dot QAtom st)
      else if c = CHR ''^'' then Inr (push_term Bol QAssertion st)
      else if c = CHR ''$'' then Inr (push_term Eol QAssertion st)
      else Inr (push_term (Chr c) QAtom st))"

text \<open>The character after a backslash, outside and inside a class.\<close>

definition control_escape :: "char \<Rightarrow> char option" where
  "control_escape c =
     (if c = CHR ''n'' then Some (char_of (10::nat))
      else if c = CHR ''t'' then Some (char_of (9::nat))
      else if c = CHR ''r'' then Some (char_of (13::nat))
      else if c = CHR ''f'' then Some (char_of (12::nat))
      else if c = CHR ''v'' then Some (char_of (11::nat))
      else None)"

definition class_escape :: "char \<Rightarrow> cls_item option" where
  "class_escape c =
     (if c = CHR ''s'' then Some CSpace
      else if c = CHR ''S'' then Some CNotSpace
      else if c = CHR ''d'' then Some CDigit
      else if c = CHR ''D'' then Some CNotDigit
      else if c = CHR ''w'' then Some CWord
      else if c = CHR ''W'' then Some CNotWord
      else None)"

definition unsupported_escape :: "char \<Rightarrow> bool" where
  "unsupported_escape c = (isDigit c \<or> c \<in> set ''xuck'')"

definition escape_step :: "char \<Rightarrow> pstate \<Rightarrow> fault + pstate" where
  "escape_step c st =
     (if c = CHR ''b'' then Inr (push_term (WordB True) QAssertion st)
      else if c = CHR ''B'' then Inr (push_term (WordB False) QAssertion st)
      else case class_escape c of
        Some item \<Rightarrow> Inr (push_term (Cls False [item]) QAtom st)
      | None \<Rightarrow>
          (case control_escape c of
             Some x \<Rightarrow> Inr (push_term (Chr x) QAtom st)
           | None \<Rightarrow>
               if unsupported_escape c then Inl OutsideFragment
               else Inr (push_term (Chr c) QAtom st)))"

definition class_escape_step :: "char \<Rightarrow> bool \<Rightarrow> cls_item list \<Rightarrow> pstate \<Rightarrow> fault + pstate" where
  "class_escape_step c neg items st =
     (case class_escape c of
        Some item \<Rightarrow> Inr (st\<lparr>pmode := InClass neg (item # items) PEscaped\<rparr>)
      | None \<Rightarrow>
          (case control_escape c of
             Some x \<Rightarrow> Inr (st\<lparr>pmode := InClass neg (CChar x # items) PEscaped\<rparr>)
           | None \<Rightarrow>
               if c = CHR ''b'' then Inr (st\<lparr>pmode := InClass neg (CChar (char_of (8::nat)) # items) PEscaped\<rparr>)
               else if unsupported_escape c then Inl OutsideFragment
               else Inr (st\<lparr>pmode := InClass neg (CChar c # items) PEscaped\<rparr>)))"

text \<open>
  Inside a class. \<open>pend\<close> remembers a plain character that may still become the lower end
  of a range. A range whose end is an escape, or whose start is one, is outside the
  fragment.
\<close>

definition commit :: "pend \<Rightarrow> cls_item list \<Rightarrow> cls_item list" where
  "commit p items =
     (case p of
        PChar a \<Rightarrow> CChar a # items
      | PDash a \<Rightarrow> CChar CHR ''-'' # CChar a # items
      | PEscapedDash \<Rightarrow> CChar CHR ''-'' # items
      | _ \<Rightarrow> items)"

definition class_step :: "char \<Rightarrow> bool \<Rightarrow> cls_item list \<Rightarrow> pend \<Rightarrow> pstate \<Rightarrow> fault + pstate" where
  "class_step c neg items p st =
     (if c = CHR '']'' then Inr (push_term (Cls neg (rev (commit p items))) QAtom st)
      else case p of
        PDash a \<Rightarrow>
          if c = backslash then Inl OutsideFragment
          else if code_unit a \<le> code_unit c then Inr (st\<lparr>pmode := InClass neg (CRange a c # items) PNone\<rparr>)
          else Inl SyntaxError
      | PEscapedDash \<Rightarrow> Inl OutsideFragment
      | PChar a \<Rightarrow>
          if c = CHR ''-'' then Inr (st\<lparr>pmode := InClass neg items (PDash a)\<rparr>)
          else if c = backslash then Inr (st\<lparr>pmode := ClassEscape neg (CChar a # items)\<rparr>)
          else Inr (st\<lparr>pmode := InClass neg (CChar a # items) (PChar c)\<rparr>)
      | PEscaped \<Rightarrow>
          if c = CHR ''-'' then Inr (st\<lparr>pmode := InClass neg items PEscapedDash\<rparr>)
          else if c = backslash then Inr (st\<lparr>pmode := ClassEscape neg items\<rparr>)
          else Inr (st\<lparr>pmode := InClass neg items (PChar c)\<rparr>)
      | PNone \<Rightarrow>
          if c = backslash then Inr (st\<lparr>pmode := ClassEscape neg items\<rparr>)
          else Inr (st\<lparr>pmode := InClass neg items (PChar c)\<rparr>))"

definition step :: "char \<Rightarrow> pstate \<Rightarrow> fault + pstate" where
  "step c st =
     (case pmode st of
        Normal \<Rightarrow> normal_step c st
      | Escape \<Rightarrow> escape_step c st
      | GroupOpen \<Rightarrow>
          if c = CHR ''?'' then Inr (st\<lparr>pmode := GroupQ\<rparr>)
          else normal_step c (open_group True st)
      | GroupQ \<Rightarrow>
          if c = CHR '':'' then Inr (open_group False st)
          else if c \<in> set ''=!<'' then Inl OutsideFragment
          else Inl SyntaxError
      | Brace \<Rightarrow>
          if isDigit c then Inl OutsideFragment
          else normal_step c (push_term (Chr CHR ''{'') QAtom st)
      | ClassStart \<Rightarrow>
          if c = CHR ''^'' then Inr (st\<lparr>pmode := InClass True [] PNone\<rparr>)
          else class_step c False [] PNone st
      | InClass neg items p \<Rightarrow> class_step c neg items p st
      | ClassEscape neg items \<Rightarrow> class_escape_step c neg items st)"

definition finish :: "pstate \<Rightarrow> fault + regex" where
  "finish st =
     (case pmode st of
        Normal \<Rightarrow> if stack st = [] then Inr (close_frame (cur st)) else Inl SyntaxError
      | Brace \<Rightarrow>
          if stack st = [] then Inr (close_frame (cur (push_term (Chr CHR ''{'') QAtom st)))
          else Inl SyntaxError
      | _ \<Rightarrow> Inl SyntaxError)"

fun run_steps :: "string \<Rightarrow> pstate \<Rightarrow> fault + pstate" where
  "run_steps [] st = Inr st"
| "run_steps (c # cs) st =
     (case step c st of Inl f \<Rightarrow> Inl f | Inr st' \<Rightarrow> run_steps cs st')"

definition initial :: pstate where
  "initial = \<lparr>pmode = Normal, cur = empty_frame None, stack = [], ngroups = 0\<rparr>"

definition parse :: "string \<Rightarrow> fault + regex" where
  "parse src = (case run_steps src initial of Inl f \<Rightarrow> Inl f | Inr st \<Rightarrow> finish st)"

text \<open>\<open>new RegExp(source, 'i')\<close>.\<close>

definition RegExp_i :: "string \<Rightarrow> fault + regexp" where
  "RegExp_i src =
     (case parse src of Inl f \<Rightarrow> Inl f | Inr r \<Rightarrow> Inr \<lparr>pattern = r, ignoreCase = True\<rparr>)"

definition bsl :: string where "bsl = [backslash]"

section \<open>Alert classification\<close>

definition CRITICAL_DEBIT_KEYWORDS :: "string list" where
  "CRITICAL_DEBIT_KEYWORDS = [''debit'', ''dr'']"

definition DEBIT_KEYWORDS :: "string list" where
  "DEBIT_KEYWORDS =
     [''debited'', ''withdrawal'', ''withdraw'', ''transferred'', ''transfer from your'',
      ''payment to'', ''paid to'', ''sent to'', ''deducted'', ''charged'', ''purchase'',
      ''atm withdrawal'', ''pos purchase'', ''bill payment'']"

definition CREDIT_KEYWORDS :: "string list" where
  "CREDIT_KEYWORDS =
     [''credited'', ''credit'', ''received'', ''deposit'', ''transfer from'', ''payment from'',
      ''salary'', ''refund'', ''reversal'']"

definition BANK_NAMES :: "string list" where
  "BANK_NAMES =
     [''GTBank'', ''Access'', ''Zenith'', ''First Bank'', ''UBA'', ''Stanbic'', ''Kuda'',
      ''Fidelity'', ''Wema'', ''Union'']"

text \<open>
  An array literal of \<open>new RegExp(...)\<close> calls: the expressions are built from left to
  right and the first one that throws ends the evaluation.
\<close>

fun build_all :: "string list \<Rightarrow> fault + regexp list" where
  "build_all [] = Inr []"
| "build_all (src # srcs) =
     (case RegExp_i src of
        Inl f \<Rightarrow> Inl f
      | Inr re \<Rightarrow> (case build_all srcs of Inl f \<Rightarrow> Inl f | Inr res \<Rightarrow> Inr (re # res)))"

text \<open>
  The sources of the receiver patterns, as the template literals spell them:
  \<open>\bto\s+NAME\b\<close>, \<open>\bcredited\s+to\s+NAME\b\<close>, \<open>\bbeneficiary[:\s]+NAME\b\<close>,
  \<open>\breceiver[:\s]+NAME\b\<close>, \<open>\brecipient[:\s]+NAME\b\<close>, \<open>\bpayment\s+to\s+NAME\b\<close>.
  The name is interpolated as it is.
\<close>

definition receiver_sources :: "string \<Rightarrow> string list" where
  "receiver_sources name =
     [bsl @ ''bto'' @ bsl @ ''s+'' @ name @ bsl @ ''b'',
      bsl @ ''bcredited'' @ bsl @ ''s+to'' @ bsl @ ''s+'' @ name @ bsl @ ''b'',
      bsl @ ''bbeneficiary[:'' @ bsl @ ''s]+'' @ name @ bsl @ ''b'',
      bsl @ ''breceiver[:'' @ bsl @ ''s]+'' @ name @ bsl @ ''b'',
      bsl @ ''brecipient[:'' @ bsl @ ''s]+'' @ name @ bsl @ ''b'',
      bsl @ ''bpayment'' @ bsl @ ''s+to'' @ bsl @ ''s+'' @ name @ bsl @ ''b'']"

text \<open>\<open>\bfrom\s+NAME\b\<close>, \<open>\bsender[:\s]+NAME\b\<close>, \<open>\bby\s+NAME\b\<close>, \<open>\btransfer\s+from\s+NAME\b\<close>.\<close>

definition sender_sources :: "string \<Rightarrow> string list" where
  "sender_sources name =
     [bsl @ ''bfrom'' @ bsl @ ''s+'' @ name @ bsl @ ''b'',
      bsl @ ''bsender[:'' @ bsl @ ''s]+'' @ name @ bsl @ ''b'',
      bsl @ ''bby'' @ bsl @ ''s+'' @ name @ bsl @ ''b'',
      bsl @ ''btransfer'' @ bsl @ ''s+from'' @ bsl @ ''s+'' @ name @ bsl @ ''b'']"

definition isUserReceiver :: "string \<Rightarrow> string \<Rightarrow> fault + bool" where
  "isUserReceiver userName text =
     (if userName = [] then Inr False
      else case build_all (receiver_sources (toLowerCase (trim userName))) of
        Inl f \<Rightarrow> Inl f
      | Inr patterns \<Rightarrow> Inr (list_ex (\<lambda>p. test p text) patterns))"

definition isUserSender :: "string \<Rightarrow> string \<Rightarrow> fault + bool" where
  "isUserSender userName text =
     (if userName = [] then Inr False
      else case build_all (sender_sources (toLowerCase (trim userName))) of
        Inl f \<Rightarrow> Inl f
      | Inr patterns \<Rightarrow> Inr (list_ex (\<lambda>p. test p text) patterns))"

text \<open>The loop over the critical keywords: \<open>new RegExp(`\\b${keyword}\\b`, 'i')\<close>.\<close>

fun critical_debit :: "string list \<Rightarrow> string \<Rightarrow> fault + bool" where
  "critical_debit [] text = Inr False"
| "critical_debit (keyword # rest) text =
     (case RegExp_i (bsl @ ''b'' @ keyword @ bsl @ ''b'') of
        Inl f \<Rightarrow> Inl f
      | Inr regex \<Rightarrow> if test regex text then Inr True else critical_debit rest text)"

definition debit_keyword :: "string \<Rightarrow> bool" where
  "debit_keyword text = list_ex (\<lambda>keyword. includes_str (toLowerCase text) keyword) DEBIT_KEYWORDS"

definition isDebitTransaction :: "string \<Rightarrow> fault + bool" where
  "isDebitTransaction text =
     (case critical_debit CRITICAL_DEBIT_KEYWORDS text of
        Inl f \<Rightarrow> Inl f
      | Inr hit \<Rightarrow> if hit then Inr True else Inr (debit_keyword text))"

definition isCreditTransaction :: "string \<Rightarrow> bool" where
  "isCreditTransaction text =
     list_ex (\<lambda>keyword. includes_str (toLowerCase text) keyword) CREDIT_KEYWORDS"

section \<open>Field extraction\<close>

definition digits_commas_dots :: regex where
  "digits_commas_dots = Plus True (Cls False [CRange CHR ''0'' CHR ''9'', CChar CHR '','', CChar CHR ''.''])"

definition spaces :: regex where
  "spaces = Plus True (Cls False [CSpace])"

text \<open>
  The naira sign U+20A6 is not a code unit of the Latin-1 range, so on the texts of this
  model its alternative matches nothing: an empty class.
\<close>

definition naira :: regex where
  "naira = Cls False []"

text \<open>
  \<open>/(?:NGN|\<dots>|N)\s*([0-9,.]+)/i\<close> (the second alternative is the naira sign),
  \<open>/credited\s+with\s+([0-9,.]+)/i\<close> and \<open>/received\s+([0-9,.]+)/i\<close>.
\<close>

definition amount_patterns :: "regexp list" where
  "amount_patterns =
     [\<lparr>pattern = seq_of [alt_of [seq_of (lit ''NGN''), naira, Chr CHR ''N''],
                         Star True (Cls False [CSpace]), Group 1 digits_commas_dots],
       ignoreCase = True\<rparr>,
      \<lparr>pattern = seq_of (lit ''credited'' @ [spaces] @ lit ''with''
                         @ [spaces, Group 1 digits_commas_dots]),
       ignoreCase = True\<rparr>,
      \<lparr>pattern = seq_of (lit ''received'' @ [spaces, Group 1 digits_commas_dots]),
       ignoreCase = True\<rparr>]"

definition digits_value :: "string \<Rightarrow> nat" where
  "digits_value ds = foldl (\<lambda>n c. 10 * n + (code_unit c - 48)) 0 ds"

text \<open>
  \<open>parseFloat\<close> on the strings it is applied to here: a capture of \<open>[0-9,.]+\<close> with the
  commas removed holds digits and dots only, so there is no sign, exponent, leading
  blank or \<open>Infinity\<close> to read. The longest prefix of the form digits, dot, digits is the
  number; without any digit the result is \<open>NaN\<close>, which is \<open>None\<close>.
\<close>

definition parseFloat :: "string \<Rightarrow> real option" where
  "parseFloat s =
     (let ip = takeWhile isDigit s;
          rest = dropWhile isDigit s;
          fp = (case rest of [] \<Rightarrow> [] | c # r \<Rightarrow> if c = CHR ''.'' then takeWhile isDigit r else [])
      in if ip = [] \<and> fp = [] then None
         else Some (real (digits_value ip) + real (digits_value fp) / 10 ^ length fp))"

text \<open>\<open>x || 0\<close> on a number: \<open>NaN\<close> and \<open>0\<close> are falsy.\<close>

definition or_zero :: "real option \<Rightarrow> real" where
  "or_zero x = (case x of None \<Rightarrow> 0 | Some v \<Rightarrow> v)"

fun extractAmount_loop :: "regexp list \<Rightarrow> string \<Rightarrow> real" where
  "extractAmount_loop [] text = 0"
| "extractAmount_loop (p # ps) text =
     (case match_group p text 1 of
        None \<Rightarrow> extractAmount_loop ps text
      | Some m \<Rightarrow>
          if m = [] then extractAmount_loop ps text
          else or_zero (parseFloat (filter (\<lambda>c. c \<noteq> CHR '','') m)))"

definition extractAmount :: "string \<Rightarrow> real" where
  "extractAmount text = extractAmount_loop amount_patterns text"

text \<open>What the program reads from its surroundings during one call.\<close>

record world =
  randomUUID :: string
  now_iso :: string
  storage_ok :: bool

text \<open>
  \<open>randomUUID\<close> is the result of \<open>crypto.randomUUID()\<close>, \<open>now_iso\<close> the result of
  \<open>new Date().toISOString()\<close>, and \<open>storage_ok\<close> tells whether \<open>storage.set\<close> resolves.
\<close>

text \<open>
  \<open>/(\d{4}-\d{2}-\d{2}|\d{2}\/\d{2}\/\d{4}|\d{2}-\d{2}-\d{4})/\<close>, each counted \<open>\d{n}\<close> written as
  \<open>n\<close> copies of \<open>\d\<close>.
\<close>

definition date_pattern :: regexp where
  "date_pattern =
     (let d4 = replicate 4 (Cls False [CDigit]); d2 = replicate 2 (Cls False [CDigit]);
          dash = [Chr CHR ''-'']; slash = [Chr CHR ''/'']
      in \<lparr>pattern = Group 1
            (alt_of [seq_of (d4 @ dash @ d2 @ dash @ d2),
                     seq_of (d2 @ slash @ d2 @ slash @ d4),
                     seq_of (d2 @ dash @ d2 @ dash @ d4)]),
          ignoreCase = False\<rparr>)"

definition extractDate :: "world \<Rightarrow> string \<Rightarrow> string" where
  "extractDate w text =
     (case match_group date_pattern text 1 of
        None \<Rightarrow> takeWhile (\<lambda>c. c \<noteq> CHR ''T'') (now_iso w)
      | Some m \<Rightarrow>
          if m = [] then takeWhile (\<lambda>c. c \<noteq> CHR ''T'') (now_iso w)
          else map (\<lambda>c. if c = CHR ''/'' then CHR ''-'' else c) m)"

text \<open>\<open>/(?:from|narration|desc|description)[:\s]+([^\.\n]+)/i\<close>\<close>

definition description_pattern :: regexp where
  "description_pattern =
     \<lparr>pattern = seq_of
        [alt_of [seq_of (lit ''from''), seq_of (lit ''narration''), seq_of (lit ''desc''),
                 seq_of (lit ''description'')],
         Plus True (Cls False [CChar CHR '':'', CSpace]),
         Group 1 (Plus True (Cls True [CChar CHR ''.'', CChar (char_of (10::nat))]))],
      ignoreCase = True\<rparr>"

definition extractDescription :: "string \<Rightarrow> string" where
  "extractDescription text =
     (let fallback = trim (take 60 text) @ (if length text > 60 then ''...'' else [])
      in case match_group description_pattern text 1 of
           None \<Rightarrow> fallback
         | Some m \<Rightarrow> if m = [] then fallback else trim m)"

fun extractBank_loop :: "string list \<Rightarrow> string \<Rightarrow> string" where
  "extractBank_loop [] text = ''Unknown''"
| "extractBank_loop (bank # banks) text =
     (if includes_str (toLowerCase text) (toLowerCase bank) then bank
      else extractBank_loop banks text)"

definition extractBank :: "string \<Rightarrow> string" where
  "extractBank text = extractBank_loop BANK_NAMES text"

text \<open>The field \<open>id\<close> of a transaction is called \<open>tx_id\<close> here.\<close>

record transaction =
  tx_id :: string
  date :: string
  amount :: real
  description :: string
  bank :: string
  rawSMS :: string

definition parseSMS :: "world \<Rightarrow> string \<Rightarrow> transaction" where
  "parseSMS w text =
     \<lparr>tx_id = randomUUID w, date = extractDate w text, amount = extractAmount text,
      description = extractDescription text, bank = extractBank text, rawSMS = text\<rparr>"

section \<open>Adding a transaction\<close>

text \<open>
  The state variables of the component that the two handlers read or write. A rejected
  \<open>storage.set\<close> makes \<open>acceptCredit\<close> throw after \<open>setTransactions\<close> has run, so the
  outcome comes together with the state reached.
\<close>

record app_state =
  smsText :: string
  transactions :: "transaction list"
  userName :: string
  selectedImage :: "string option"
  showDebitPopup :: bool
  error :: string
  success :: string

text \<open>
  The way a call of the handler ended: through one of its four \<open>flashError\<close> returns,
  through the end of \<open>acceptCredit\<close>, or with an exception.
\<close>

datatype outcome =
    EmptyInput | DebitRejected | AmbiguousAlert | ExtractionFailed | Added | Threw fault

definition flashError :: "string \<Rightarrow> app_state \<Rightarrow> app_state" where
  "flashError message st = st\<lparr>error := message\<rparr>"

definition flashSuccess :: "string \<Rightarrow> app_state \<Rightarrow> app_state" where
  "flashSuccess message st = st\<lparr>success := message\<rparr>"

definition acceptCredit :: "world \<Rightarrow> app_state \<Rightarrow> outcome \<times> app_state" where
  "acceptCredit w st =
     (let newTransaction = parseSMS w (smsText st)
      in if amount newTransaction \<le> 0
         then (ExtractionFailed, flashError ''Could not extract a valid amount from the SMS.'' st)
         else
           let next = newTransaction # transactions st;
               st1 = st\<lparr>transactions := next\<rparr>
           in if storage_ok w
              then (Added, flashSuccess ''Income transaction added successfully''
                             (st1\<lparr>smsText := [], selectedImage := None\<rparr>))
              else (Threw StorageFailure, st1))"

definition handleAddTransaction :: "world \<Rightarrow> app_state \<Rightarrow> outcome \<times> app_state" where
  "handleAddTransaction w st =
     (if trim (smsText st) = []
      then (EmptyInput, flashError ''Please enter SMS text or use OCR.'' st)
      else case isUserReceiver (userName st) (smsText st) of
        Inl f \<Rightarrow> (Threw f, st)
      | Inr receiver \<Rightarrow>
          if receiver then acceptCredit w st
          else case isUserSender (userName st) (smsText st) of
            Inl f \<Rightarrow> (Threw f, st)
          | Inr sender \<Rightarrow>
              (case (if sender then Inr True else isDebitTransaction (smsText st)) of
                 Inl f \<Rightarrow> (Threw f, st)
               | Inr debit \<Rightarrow>
                   if debit
                   then (DebitRejected,
                         flashError ''Debit detected! Only credit income alerts are accepted.''
                           (st\<lparr>showDebitPopup := True\<rparr>))
                   else if \<not> isCreditTransaction (smsText st)
                   then (AmbiguousAlert, flashError ''Unable to confirm this is a credit alert.'' st)
                   else acceptCredit w st))"

section \<open>The classifier as the specification words it\<close>

datatype decision = Accepted | RejectedDebit string | RejectedAmbiguous string

text \<open>
  The seven rules in the order of the specification, first match wins. The conditions
  are the program's own predicates; a rule whose patterns cannot be built raises the fault.
  An absent profile is the empty \<open>userName\<close>.
\<close>

definition classify_spec :: "string \<Rightarrow> string \<Rightarrow> fault + decision" where
  "classify_spec text name =
     (if trim text = [] then Inr (RejectedAmbiguous ''Please enter SMS text or use OCR.'')
      else case isUserReceiver name text of
        Inl f \<Rightarrow> Inl f
      | Inr receiver \<Rightarrow>
          if receiver then Inr Accepted
          else case critical_debit CRITICAL_DEBIT_KEYWORDS text of
            Inl f \<Rightarrow> Inl f
          | Inr critical \<Rightarrow>
              if critical
              then Inr (RejectedDebit ''Debit detected! Only credit income alerts are accepted.'')
              else case isUserSender name text of
                Inl f \<Rightarrow> Inl f
              | Inr sender \<Rightarrow>
                  if sender
                  then Inr (RejectedDebit ''Debit detected! Only credit income alerts are accepted.'')
                  else if debit_keyword text
                  then Inr (RejectedDebit ''Debit detected! Only credit income alerts are accepted.'')
                  else if \<not> isCreditTransaction text
                  then Inr (RejectedAmbiguous ''Unable to confirm this is a credit alert.'')
                  else Inr Accepted)"

text \<open>What the handler does with a decision.\<close>

definition apply_decision :: "world \<Rightarrow> app_state \<Rightarrow> fault + decision \<Rightarrow> outcome \<times> app_state" where
  "apply_decision w st d =
     (case d of
        Inl f \<Rightarrow> (Threw f, st)
      | Inr Accepted \<Rightarrow> acceptCredit w st
      | Inr (RejectedDebit reason) \<Rightarrow>
          (DebitRejected, flashError reason (st\<lparr>showDebitPopup := True\<rparr>))
      | Inr (RejectedAmbiguous reason) \<Rightarrow>
          (if trim (smsText st) = [] then EmptyInput else AmbiguousAlert, flashError reason st))"

text \<open>\<open>match?.[1]\<close> is truthy: the expression matched and its first group is not empty.\<close>

definition matched :: "regexp \<Rightarrow> string \<Rightarrow> bool" where
  "matched p text = (case match_group p text 1 of None \<Rightarrow> False | Some m \<Rightarrow> m \<noteq> [])"


definition positive_ledger :: "app_state \<Rightarrow> bool" where
  "positive_ledger st = list_all (\<lambda>t. 0 < amount t) (transactions st)"

definition rejection :: "outcome \<Rightarrow> bool" where
  "rejection out = (out = EmptyInput \<or> out = DebitRejected \<or> out = AmbiguousAlert \<or> out = ExtractionFailed)"

text \<open>Concrete surroundings and states for the examples.\<close>

definition world_at :: "string \<Rightarrow> world" where
  "world_at clock = \<lparr>randomUUID = ''3b241101-e2bb-4255-8caf-4136c566a962'', now_iso = clock, storage_ok = True\<rparr>"

definition state_with :: "string \<Rightarrow> string \<Rightarrow> transaction list \<Rightarrow> app_state" where
  "state_with name text ledger =
     \<lparr>smsText = text, transactions = ledger, userName = name, selectedImage = None,
      showDebitPopup = False, error = [], success = []\<rparr>"

definition ledger0 :: "transaction list" where
  "ledger0 =
     [\<lparr>tx_id = ''9f1c'', date = ''2025-01-01'', amount = 5, description = ''Salary'',
       bank = ''Kuda'', rawSMS = ''Salary N5 Kuda''\<rparr>]"

section \<open>Auxiliary definitions for the proofs\<close>

text \<open>The letters A to Z and a to z: the five low bits count from 1 to 26.\<close>

definition letter_bits :: "bool \<Rightarrow> bool \<Rightarrow> bool \<Rightarrow> bool \<Rightarrow> bool \<Rightarrow> bool" where
  "letter_bits b0 b1 b2 b3 b4 =
     ((b0 \<or> b1 \<or> b2 \<or> b3 \<or> b4) \<and> \<not> (b4 \<and> b3 \<and> (b2 \<or> (b1 \<and> b0))))"

text \<open>The Latin-1 letters: the five low bits are neither 23 nor 31.\<close>

definition latin_bits :: "bool \<Rightarrow> bool \<Rightarrow> bool \<Rightarrow> bool \<Rightarrow> bool \<Rightarrow> bool" where
  "latin_bits b0 b1 b2 b3 b4 = (\<not> (b0 \<and> b1 \<and> b2 \<and> b4))"

text \<open>
  Two parser states are similar when they agree on everything that decides whether a
  later character is accepted: the mode, the status of the last term, whether the current
  alternative has a term, and the number of open groups.
\<close>

definition sim :: "pstate \<Rightarrow> pstate \<Rightarrow> bool" where
  "sim a b \<longleftrightarrow>
     pmode a = pmode b \<and> quant (cur a) = quant (cur b)
     \<and> (terms (cur a) = [] \<longleftrightarrow> terms (cur b) = [])
     \<and> length (stack a) = length (stack b)"

text \<open>
  The state reached after one of the fixed pattern beginnings: all of them end in a
  quantified term, outside any group or class.
\<close>

definition ready :: "string \<Rightarrow> bool" where
  "ready p =
     (case run_steps p initial of
        Inl f \<Rightarrow> False
      | Inr a \<Rightarrow> pmode a = Normal \<and> quant (cur a) = QQuantified \<and> terms (cur a) \<noteq> []
                 \<and> stack a = [])"

definition receiver_prefixes :: "string list" where
  "receiver_prefixes =
     [bsl @ ''bto'' @ bsl @ ''s+'',
      bsl @ ''bcredited'' @ bsl @ ''s+to'' @ bsl @ ''s+'',
      bsl @ ''bbeneficiary[:'' @ bsl @ ''s]+'',
      bsl @ ''breceiver[:'' @ bsl @ ''s]+'',
      bsl @ ''brecipient[:'' @ bsl @ ''s]+'',
      bsl @ ''bpayment'' @ bsl @ ''s+to'' @ bsl @ ''s+'']"

definition sender_prefixes :: "string list" where
  "sender_prefixes =
     [bsl @ ''bfrom'' @ bsl @ ''s+'',
      bsl @ ''bsender[:'' @ bsl @ ''s]+'',
      bsl @ ''bby'' @ bsl @ ''s+'',
      bsl @ ''btransfer'' @ bsl @ ''s+from'' @ bsl @ ''s+'']"

text \<open>The characters that have a meaning of their own in a pattern.\<close>

definition syntax_char :: "char \<Rightarrow> bool" where
  "syntax_char c = (c = backslash \<or> c \<in> set ''^$.*+?()[]{}|'')"

text \<open>
  For the binary64 tax engine: a limit that is a non-negative multiple of 64 below \<open>2 ^ 59\<close>,
  and a table whose finite limits ascend from \<open>p\<close> and are all of that kind. Binary64
  numbers below \<open>2 ^ 59\<close> are at most 64 apart, so that subtracting such a limit from one
  of them is exact.
\<close>

definition grain :: "real \<Rightarrow> bool" where
  "grain p \<longleftrightarrow> 0 \<le> p \<and> p < 2 ^ 59 \<and> 64 * of_int \<lfloor>p / 64\<rfloor> = p"

fun aligned :: "real \<Rightarrow> bracket list \<Rightarrow> bool" where
  "aligned p [] = True"
| "aligned p (b # bs) =
     (case limit b of Infinity \<Rightarrow> True | Finite l \<Rightarrow> p \<le> l \<and> grain l \<and> aligned l bs)"

section \<open>Properties of the tax engine\<close>

lemma taxBreakdown_loop_brackets:
  "map bracket_of (taxBreakdown_loop remaining previousLimit bs) = bs"
  by (induction bs arbitrary: remaining previousLimit) (simp_all add: Let_def bracket_of_def)

lemma taxBreakdown_loop_sum:
  "0 \<le> remaining \<Longrightarrow> bs \<noteq> [] \<Longrightarrow> limit (last bs) = Infinity \<Longrightarrow>
   sum_list (map taxable (taxBreakdown_loop remaining previousLimit bs)) = remaining"
proof (induction bs arbitrary: remaining previousLimit)
  case Nil
  then show ?case by simp
next
  case (Cons b bs)
  let ?tb = "max (min remaining (bracketCap (limit b) previousLimit remaining)) 0"
  have range: "0 \<le> ?tb" "?tb \<le> remaining"
    using Cons.prems(1) by auto
  show ?case
  proof (cases "bs = []")
    case True
    with Cons.prems show ?thesis by (simp add: Let_def)
  next
    case False
    with Cons.prems have "limit (last bs) = Infinity" by simp
    with Cons.IH [of "remaining - ?tb" "limit b"] False range
    have "sum_list (map taxable (taxBreakdown_loop (remaining - ?tb) (limit b) bs)) = remaining - ?tb"
      by simp
    then show ?thesis by (simp add: Let_def)
  qed
qed

lemma taxBreakdown_loop_zero:
  "sum_list (map tax (taxBreakdown_loop 0 previousLimit bs)) = 0"
  by (induction bs arbitrary: previousLimit) (simp_all add: Let_def)

lemma calculateTax_loop_breakdown:
  "p \<le> income \<Longrightarrow> ascending p bs \<Longrightarrow>
   calculateTax_loop income bs t p
     = t + sum_list (map tax (taxBreakdown_loop (income - p) (Finite p) bs))"
proof (induction bs arbitrary: t p)
  case Nil
  then show ?case by simp
next
  case (Cons b bs)
  show ?case
  proof (cases "limit b")
    case Infinity
    then show ?thesis
      using Cons.prems by (simp add: Let_def taxBreakdown_loop_zero)
  next
    case (Finite l)
    with Cons.prems have pl: "p \<le> l" and asc: "ascending l bs" by simp_all
    show ?thesis
    proof (cases "income \<le> l")
      case True
      show ?thesis
        using True Finite Cons.prems(1) pl
        by (simp add: Let_def max_absorb1 min_absorb2 taxBreakdown_loop_zero)
    next
      case False
      have "calculateTax_loop income bs (t + (l - p) * rate b) l
              = t + (l - p) * rate b
                + sum_list (map tax (taxBreakdown_loop (income - l) (Finite l) bs))"
        using Cons.IH [of l "t + (l - p) * rate b"] False asc by simp
      then show ?thesis
        using False Finite Cons.prems(1) pl
        by (simp add: Let_def max_absorb1 min_absorb1 min_absorb2)
    qed
  qed
qed

lemma calculateTax_cases:
  "calculateTax x =
     (if x \<le> 800000 then 0
      else if x \<le> 3000000 then (x - 800000) * (15 / 100)
      else if x \<le> 12000000 then 330000 + (x - 3000000) * (18 / 100)
      else if x \<le> 25000000 then 1950000 + (x - 12000000) * (21 / 100)
      else if x \<le> 50000000 then 4680000 + (x - 25000000) * (23 / 100)
      else 10430000 + (x - 50000000) * (25 / 100))"
  by (simp add: calculateTax_def TAX_BRACKETS_def)

lemma taxBreakdown_loop_zero_taxable:
  "j < length bs \<Longrightarrow> taxable (taxBreakdown_loop 0 previousLimit bs ! j) = 0"
proof (induction bs arbitrary: previousLimit j)
  case Nil
  then show ?case by simp
next
  case (Cons b bs)
  then show ?case by (cases j) (simp_all add: Let_def)
qed

lemma taxBreakdown_loop_unreached:
  "p \<le> income \<Longrightarrow> ascending p bs \<Longrightarrow> Suc j < length bs \<Longrightarrow>
   limit (bs ! j) = Finite l \<Longrightarrow> income \<le> l \<Longrightarrow>
   taxable (taxBreakdown_loop (income - p) (Finite p) bs ! Suc j) = 0"
proof (induction bs arbitrary: p j)
  case Nil
  then show ?case by simp
next
  case (Cons b bs)
  show ?case
  proof (cases "limit b")
    case Infinity
    with Cons.prems(1,3) show ?thesis
      by (simp add: Let_def max_absorb1 taxBreakdown_loop_zero_taxable)
  next
    case (Finite l0)
    with Cons.prems have pl: "p \<le> l0" and asc: "ascending l0 bs" by simp_all
    show ?thesis
    proof (cases "income \<le> l0")
      case True
      with Finite Cons.prems(1,3) pl show ?thesis
        by (simp add: Let_def max_absorb1 min_absorb2 taxBreakdown_loop_zero_taxable)
    next
      case False
      with Cons.prems(4,5) Finite obtain j' where j: "j = Suc j'"
        by (cases j) auto
      have "taxable (taxBreakdown_loop (income - l0) (Finite l0) bs ! Suc j') = 0"
        using Cons.IH [of l0 j'] False asc Cons.prems(3,4,5) j by simp
      with False Finite Cons.prems(1) pl j show ?thesis
        by (simp add: Let_def max_absorb1 min_absorb1 min_absorb2)
    qed
  qed
qed

lemma ascending_TAX_BRACKETS: "ascending 0 TAX_BRACKETS"
  by (simp add: TAX_BRACKETS_def)

lemma calculateTax_le: "0 \<le> a \<Longrightarrow> calculateTax a \<le> a"
  unfolding calculateTax_cases by (auto simp: field_simps)

lemma calculateTax_mono: "a \<le> b \<Longrightarrow> calculateTax a \<le> calculateTax b"
  unfolding calculateTax_cases by (auto simp: field_simps)

text \<open>
  Without rounding the breakdown of every total income \<open>\<ge> 0\<close> lists every bracket, records
  zero for the brackets that the income does not reach, and has \<open>taxable\<close> entries that add
  up to the income: where the program's numbers differ from that (further down), rounding
  is the only cause.
\<close>

lemma taxBreakdown_exact_lists_all_and_sums:
  "0 \<le> totalIncome \<Longrightarrow>
   map bracket_of (taxBreakdown totalIncome) = TAX_BRACKETS
   \<and> (\<forall>j l. Suc j < length TAX_BRACKETS \<and> limit (TAX_BRACKETS ! j) = Finite l
          \<and> totalIncome \<le> l \<longrightarrow> taxable (taxBreakdown totalIncome ! Suc j) = 0)
   \<and> sum_list (map taxable (taxBreakdown totalIncome)) = totalIncome"
proof (intro conjI allI impI)
  show "map bracket_of (taxBreakdown totalIncome) = TAX_BRACKETS"
    unfolding taxBreakdown_def by (rule taxBreakdown_loop_brackets)
next
  fix j l
  assume nonneg: "0 \<le> totalIncome"
    and j: "Suc j < length TAX_BRACKETS \<and> limit (TAX_BRACKETS ! j) = Finite l \<and> totalIncome \<le> l"
  show "taxable (taxBreakdown totalIncome ! Suc j) = 0"
    using taxBreakdown_loop_unreached [of 0 totalIncome TAX_BRACKETS j l]
      nonneg j ascending_TAX_BRACKETS
    by (simp add: taxBreakdown_def)
next
  assume "0 \<le> totalIncome"
  moreover have "TAX_BRACKETS \<noteq> []" "limit (last TAX_BRACKETS) = Infinity"
    by (simp_all add: TAX_BRACKETS_def)
  ultimately show "sum_list (map taxable (taxBreakdown totalIncome)) = totalIncome"
    unfolding taxBreakdown_def by (rule taxBreakdown_loop_sum)
qed

text \<open>
  C4. The tax computation is monotone on non-negative incomes and never exceeds the
  income.
\<close>

theorem calculateTax_monotone_bounded:
  "0 \<le> a \<Longrightarrow> a \<le> b \<Longrightarrow> calculateTax a \<le> calculateTax b \<and> calculateTax a \<le> a"
  by (simp add: calculateTax_le calculateTax_mono)

theorem calculateTax_monotone_bounded_witness:
  "(0::real) \<le> 1000000 \<and> (1000000::real) \<le> 4000000
   \<and> calculateTax 1000000 = 30000 \<and> calculateTax 4000000 = 510000
   \<and> calculateTax 1000000 \<le> calculateTax 4000000 \<and> calculateTax 1000000 \<le> 1000000"
  using calculateTax_monotone_bounded [of 1000000 4000000]
  by (simp add: calculateTax_cases)

text \<open>
  Without rounding the scalar computation is the sum of the breakdown's \<open>tax\<close> entries, for
  every income \<open>\<ge> 0\<close>.
\<close>

lemma calculateTax_exact_eq_breakdown_sum:
  "0 \<le> income \<Longrightarrow> calculateTax income = sum_list (map tax (taxBreakdown income))"
  using calculateTax_loop_breakdown [of 0 income TAX_BRACKETS 0] ascending_TAX_BRACKETS
  by (simp add: calculateTax_def taxBreakdown_def)

section \<open>Properties of the rounding\<close>

lemma b64_scale_pos: "0 < b64_scale"
  by (simp add: b64_scale_def)

lemma round_half_even_of_int: "round_half_even (of_int k) = k"
  by (simp add: round_half_even_def)

lemma bitlen_le_nat: "bitlen N \<le> int w \<longleftrightarrow> N < 2 ^ w"
  using bitlen_le_iff_power [of N "int w"] by simp

lemma bitlen_ge_nat: "int (Suc w) \<le> bitlen N \<longleftrightarrow> 2 ^ w \<le> N"
  using bitlen_ge_iff_power [of "int (Suc w)" N] by (simp add: nat_add_distrib)

lemma ulp_exp_le:
  assumes "\<bar>x\<bar> * b64_scale < 2 ^ (53 + u)"
  shows "ulp_exp x \<le> u"
proof -
  let ?N = "\<lfloor>\<bar>x\<bar> * b64_scale\<rfloor>"
  have "?N < 2 ^ (53 + u)"
    using assms by (simp add: floor_less_iff)
  then have "bitlen ?N \<le> int (53 + u)"
    by (simp only: bitlen_le_nat)
  then show ?thesis
    by (simp add: ulp_exp_def)
qed

lemma ulp_exp_ge:
  assumes "2 ^ (52 + u) \<le> \<bar>x\<bar> * b64_scale"
  shows "u \<le> ulp_exp x"
proof -
  let ?N = "\<lfloor>\<bar>x\<bar> * b64_scale\<rfloor>"
  have "(2::int) ^ (52 + u) \<le> ?N"
    using assms by (simp add: le_floor_iff)
  then have "int (Suc (52 + u)) \<le> bitlen ?N"
    by (simp only: bitlen_ge_nat)
  then show ?thesis
    by (simp add: ulp_exp_def)
qed

lemma ulp_exp_eqI:
  "2 ^ (52 + u) \<le> \<bar>x\<bar> * b64_scale \<Longrightarrow> \<bar>x\<bar> * b64_scale < 2 ^ (53 + u) \<Longrightarrow> ulp_exp x = u"
  by (simp add: ulp_exp_le ulp_exp_ge order_antisym)

lemma ulp_exp_bound:
  "\<bar>x\<bar> * b64_scale < 2 ^ (53 + ulp_exp x)"
proof -
  let ?N = "\<lfloor>\<bar>x\<bar> * b64_scale\<rfloor>"
  have "bitlen ?N \<le> int (53 + ulp_exp x)"
    by (simp add: ulp_exp_def)
  then have "?N < 2 ^ (53 + ulp_exp x)"
    by (simp only: bitlen_le_nat)
  then show ?thesis
    by (simp add: floor_less_iff)
qed

text \<open>A real \<open>m * 2 ^ e / 2 ^ 1074\<close> with \<open>\<bar>m\<bar> < 2 ^ 53\<close> is a fixed point of the rounding.\<close>

lemma fl_exact:
  assumes x: "x = of_int m * 2 ^ e / b64_scale" and m: "\<bar>m\<bar> < 2 ^ 53"
  shows "fl x = x"
proof -
  have xg: "x * b64_scale = of_int m * 2 ^ e"
    using b64_scale_pos by (simp add: x)
  have "\<bar>x\<bar> * b64_scale = \<bar>of_int m :: real\<bar> * 2 ^ e"
    using b64_scale_pos by (simp add: x abs_mult)
  also have "\<dots> < 2 ^ 53 * 2 ^ e"
  proof -
    have "\<bar>of_int m :: real\<bar> < 2 ^ 53"
      using m by (metis of_int_abs of_int_less_numeral_power_cancel_iff)
    then show ?thesis by simp
  qed
  finally have "\<bar>x\<bar> * b64_scale < 2 ^ (53 + e)"
    by (simp add: power_add)
  then have ue: "ulp_exp x \<le> e"
    by (rule ulp_exp_le)
  define u where "u = ulp_exp x"
  have "x * b64_scale / 2 ^ u = of_int m * 2 ^ (e - u)"
    using ue by (simp add: xg u_def power_diff)
  also have "\<dots> = of_int (m * 2 ^ (e - u))"
    by simp
  finally have "round_half_even (x * b64_scale / 2 ^ u) = m * 2 ^ (e - u)"
    by (simp only: round_half_even_of_int)
  then have "fl x = of_int (m * 2 ^ (e - u)) * 2 ^ u / b64_scale"
    by (simp add: fl_def u_def)
  also have "\<dots> = of_int m * (2 ^ (e - u) * 2 ^ u) / b64_scale"
    by simp
  also have "2 ^ (e - u) * 2 ^ u = (2::real) ^ e"
    using ue by (simp add: u_def flip: power_add)
  finally show ?thesis
    by (simp add: x)
qed

lemma fl_0: "fl 0 = 0"
  using fl_exact [of 0 0 0] by simp

text \<open>Conversely a fixed point has a significand below \<open>2 ^ 53\<close> at its own spacing.\<close>

lemma fl_fixed_form:
  assumes "fl x = x" "0 \<le> x"
  obtains n where "0 \<le> n" "n < 2 ^ 53" "x = of_int n * 2 ^ ulp_exp x / b64_scale"
proof -
  define u where "u = ulp_exp x"
  define n where "n = round_half_even (x * b64_scale / 2 ^ u)"
  have x: "x = of_int n * 2 ^ u / b64_scale"
    using assms(1) by (simp add: fl_def u_def n_def)
  then have xg: "x * b64_scale = of_int n * 2 ^ u"
    using b64_scale_pos by simp
  have "0 \<le> x * b64_scale"
    using assms(2) b64_scale_pos by simp
  then have "0 \<le> (of_int n :: real) * 2 ^ u"
    by (simp only: xg)
  then have "0 \<le> (of_int n :: real) * 2 ^ u / 2 ^ u"
    by (intro divide_nonneg_pos) simp_all
  then have n0: "0 \<le> n"
    by simp
  have "\<bar>x\<bar> * b64_scale < 2 ^ (53 + u)"
    unfolding u_def by (rule ulp_exp_bound)
  then have "of_int n * 2 ^ u < (2::real) ^ 53 * 2 ^ u"
    using assms(2) xg by (simp add: power_add)
  then have "(of_int n :: real) < 2 ^ 53"
    by simp
  then have "n < 2 ^ 53"
    by (metis of_int_less_numeral_power_cancel_iff)
  with n0 x show ?thesis
    using that by (simp add: u_def)
qed

lemma b64_scale_shift: "2 ^ k * b64_scale = 2 ^ (k + 1074)"
  by (simp only: b64_scale_def power_add)

lemma ulp_exp_below_2_59:
  assumes "0 \<le> x" "x < 2 ^ 59"
  shows "ulp_exp x \<le> 1080"
proof -
  have "\<bar>x\<bar> * b64_scale < 2 ^ 59 * b64_scale"
    using assms b64_scale_pos by simp
  also have "\<dots> = 2 ^ (59 + 1074)"
    by (rule b64_scale_shift)
  also have "(59::nat) + 1074 = 53 + 1080"
    by simp
  finally show ?thesis
    by (rule ulp_exp_le)
qed

lemma sixty_four: "64 = 2 ^ 1080 / b64_scale"
proof -
  have "(2::real) ^ 6 * b64_scale = 2 ^ (6 + 1074)"
    by (rule b64_scale_shift)
  also have "(6::nat) + 1074 = 1080"
    by simp
  finally have "(2::real) ^ 1080 / b64_scale = 2 ^ 6"
    using b64_scale_pos by (simp add: field_simps)
  then show ?thesis
    by simp
qed

lemma scaled_nonneg:
  assumes "0 < (c::real)" "0 \<le> of_int m * 2 ^ u / c"
  shows "0 \<le> m"
proof (rule ccontr)
  assume "\<not> 0 \<le> m"
  then have "(of_int m :: real) < 0"
    by simp
  then have "of_int m * 2 ^ u / c < 0"
    using assms(1) by (intro divide_neg_pos mult_neg_pos) simp_all
  with assms(2) show False
    by simp
qed

text \<open>
  Below \<open>2 ^ 59\<close> the binary64 numbers are at most 64 apart: subtracting a multiple of 64
  from one of them, without passing zero, is exact.
\<close>

lemma fl_sub_aligned:
  assumes fx: "fl x = x" and k: "0 \<le> k" and le: "64 * of_int k \<le> x" and x: "x < 2 ^ 59"
  shows "fl (x - 64 * of_int k) = x - 64 * of_int k"
proof -
  have "0 \<le> 64 * (of_int k :: real)"
    using k by simp
  with le have x0: "0 \<le> x"
    by simp
  define u where "u = ulp_exp x"
  have u: "u \<le> 1080"
    unfolding u_def using x0 x by (rule ulp_exp_below_2_59)
  from fx x0 obtain n where n: "0 \<le> n" "n < 2 ^ 53" and xn: "x = of_int n * 2 ^ u / b64_scale"
    unfolding u_def by (rule fl_fixed_form)
  define m where "m = n - k * 2 ^ (1080 - u)"
  define W where "W = (2::real) ^ 1080"
  have p: "W = 2 ^ (1080 - u) * 2 ^ u"
    unfolding W_def using u by (simp only: flip: power_add) simp
  have sf: "64 = W / b64_scale"
    unfolding W_def by (rule sixty_four)
  have "x - 64 * of_int k = of_int n * 2 ^ u / b64_scale - of_int k * (W / b64_scale)"
    by (simp add: xn flip: sf)
  also have "\<dots> = of_int m * 2 ^ u / b64_scale"
    by (simp add: m_def p left_diff_distrib diff_divide_distrib mult.assoc)
  finally have eq: "x - 64 * of_int k = of_int m * 2 ^ u / b64_scale" .
  have "0 \<le> x - 64 * of_int k"
    using le by simp
  then have "0 \<le> m"
    unfolding eq using b64_scale_pos by (rule scaled_nonneg [rotated])
  moreover have "m \<le> n"
    using k by (simp add: m_def)
  ultimately have "\<bar>m\<bar> < 2 ^ 53"
    using n by simp
  with eq show ?thesis
    by (rule fl_exact)
qed

lemma round_half_even_range:
  "\<lfloor>y\<rfloor> \<le> round_half_even y \<and> round_half_even y \<le> \<lfloor>y\<rfloor> + 1"
  by (simp add: round_half_even_def Let_def)

text \<open>A rounded result is a fixed point.\<close>

lemma fl_idem: "fl (fl x) = fl x"
proof -
  define u where "u = ulp_exp x"
  define y where "y = x * b64_scale / 2 ^ u"
  define r where "r = round_half_even y"
  have flx: "fl x = of_int r * 2 ^ u / b64_scale"
    by (simp add: fl_def u_def y_def r_def)
  have "\<bar>x\<bar> * b64_scale < 2 ^ (53 + u)"
    unfolding u_def by (rule ulp_exp_bound)
  then have "\<bar>x * b64_scale\<bar> < 2 ^ 53 * 2 ^ u"
    using b64_scale_pos by (simp add: abs_mult power_add)
  then have "\<bar>x * b64_scale\<bar> / 2 ^ u < 2 ^ 53"
    by (simp add: field_simps)
  then have ay: "\<bar>y\<bar> < 2 ^ 53"
    by (simp add: y_def)
  have a: "\<lfloor>y\<rfloor> < 2 ^ 53"
    using ay by (simp add: floor_less_iff)
  have b: "- (2 ^ 53) \<le> \<lfloor>y\<rfloor>"
    using ay by (simp add: le_floor_iff)
  from a b round_half_even_range [of y] have "- (2 ^ 53) \<le> r" "r \<le> 2 ^ 53"
    unfolding r_def by linarith+
  then consider "\<bar>r\<bar> < 2 ^ 53" | "r = 2 ^ 53" | "r = - (2 ^ 53)"
    by linarith
  then show ?thesis
  proof cases
    case 1
    with flx show ?thesis by (rule fl_exact)
  next
    case 2
    have "fl x = of_int 1 * 2 ^ (53 + u) / b64_scale"
      by (simp add: flx 2 power_add)
    then show ?thesis
      by (rule fl_exact) simp
  next
    case 3
    have "fl x = of_int (- 1) * 2 ^ (53 + u) / b64_scale"
      by (simp add: flx 3 power_add)
    then show ?thesis
      by (rule fl_exact) simp
  qed
qed

text \<open>
  The rounding with the spacing given: of a number of magnitude \<open>2 ^ 52\<close> or more, and of a
  smaller one.
\<close>

lemma fl_big:
  assumes "2 ^ (52 + k) \<le> \<bar>x\<bar>" "\<bar>x\<bar> < 2 ^ (53 + k)"
  shows "fl x = of_int (round_half_even (x / 2 ^ k)) * 2 ^ k"
proof -
  have g: "(2::real) ^ (1074 + k) = b64_scale * 2 ^ k"
    by (simp only: b64_scale_def power_add)
  have "(2::real) ^ (52 + (1074 + k)) = 2 ^ (52 + k) * b64_scale"
    by (simp only: b64_scale_def power_add) simp
  moreover have "(2::real) ^ (53 + (1074 + k)) = 2 ^ (53 + k) * b64_scale"
    by (simp only: b64_scale_def power_add) simp
  ultimately have "ulp_exp x = 1074 + k"
    using assms b64_scale_pos by (intro ulp_exp_eqI) simp_all
  then show ?thesis
    using b64_scale_pos by (simp add: fl_def g)
qed

lemma fl_small:
  assumes j: "j \<le> 1074" and "2 ^ 52 \<le> \<bar>x\<bar> * 2 ^ j" "\<bar>x\<bar> * 2 ^ j < 2 ^ 53"
  shows "fl x = of_int (round_half_even (x * 2 ^ j)) / 2 ^ j"
proof -
  define u where "u = 1074 - j"
  have g: "b64_scale = 2 ^ j * 2 ^ u"
    using j by (simp only: b64_scale_def u_def flip: power_add) simp
  have "ulp_exp x = u"
  proof (rule ulp_exp_eqI)
    have "(2::real) ^ (52 + u) = 2 ^ 52 * 2 ^ u"
      by (rule power_add)
    also have "\<dots> \<le> \<bar>x\<bar> * 2 ^ j * 2 ^ u"
      using assms(2) by (intro mult_right_mono) simp_all
    finally show "2 ^ (52 + u) \<le> \<bar>x\<bar> * b64_scale"
      by (simp add: g)
    have "\<bar>x\<bar> * 2 ^ j * 2 ^ u < 2 ^ 53 * 2 ^ u"
      using assms(3) by (intro mult_strict_right_mono) simp_all
    also have "\<dots> = (2::real) ^ (53 + u)"
      by (rule power_add [symmetric])
    finally show "\<bar>x\<bar> * b64_scale < 2 ^ (53 + u)"
      by (simp add: g)
  qed
  then show ?thesis
    by (simp add: fl_def g)
qed

lemma fl_numeral:
  "(numeral n :: int) < 2 ^ 53 \<Longrightarrow> fl (numeral n) = numeral n"
  using fl_exact [of "numeral n" "numeral n" 1074] b64_scale_pos
  by (simp add: b64_scale_def)

lemma fl_1: "fl 1 = 1"
  using fl_exact [of 1 1 1074] by (simp add: b64_scale_def)

lemma below_overflow:
  assumes "\<bar>x\<bar> < 2 ^ 60"
  shows "\<bar>x\<bar> < (2::real) ^ 1024"
proof -
  have "(2::real) ^ 60 \<le> 2 ^ 1024"
    by (rule power_increasing) simp_all
  with assms show ?thesis
    by (rule less_le_trans)
qed

text \<open>Rounding is monotone on the non-negative reals.\<close>

lemma round_half_even_mono:
  assumes "a \<le> b"
  shows "round_half_even a \<le> round_half_even b"
proof (cases "\<lfloor>a\<rfloor> = \<lfloor>b\<rfloor>")
  case True
  with assms show ?thesis
    by (simp add: round_half_even_def Let_def)
next
  case False
  with assms have "\<lfloor>a\<rfloor> < \<lfloor>b\<rfloor>"
    using floor_mono [of a b] by linarith
  with round_half_even_range [of a] round_half_even_range [of b] show ?thesis
    by linarith
qed

lemma bitlen_mono:
  assumes "a \<le> b"
  shows "bitlen a \<le> bitlen b"
proof -
  have "b < 2 ^ nat (bitlen b)"
    using bitlen_le_iff_power [of b "bitlen b"] by simp
  with assms have "a < 2 ^ nat (bitlen b)"
    by simp
  then show ?thesis
    using bitlen_le_iff_power [of a "bitlen b"] bitlen_nonneg [of b] by simp
qed

lemma ulp_exp_mono:
  assumes "\<bar>x\<bar> \<le> \<bar>y\<bar>"
  shows "ulp_exp x \<le> ulp_exp y"
proof -
  have "\<bar>x\<bar> * b64_scale \<le> \<bar>y\<bar> * b64_scale"
    using assms b64_scale_pos by simp
  then have "bitlen \<lfloor>\<bar>x\<bar> * b64_scale\<rfloor> \<le> bitlen \<lfloor>\<bar>y\<bar> * b64_scale\<rfloor>"
    by (intro bitlen_mono floor_mono)
  then show ?thesis
    by (simp add: ulp_exp_def)
qed

lemma ulp_exp_lower:
  assumes "0 < ulp_exp y"
  shows "2 ^ (52 + ulp_exp y) \<le> \<bar>y\<bar> * b64_scale"
proof -
  let ?N = "\<lfloor>\<bar>y\<bar> * b64_scale\<rfloor>"
  have "bitlen ?N = int (Suc (52 + ulp_exp y))"
    using assms by (simp add: ulp_exp_def)
  then have "int (Suc (52 + ulp_exp y)) \<le> bitlen ?N"
    by simp
  then have "(2::int) ^ (52 + ulp_exp y) \<le> ?N"
    by (simp only: bitlen_ge_nat)
  then have "of_int ((2::int) ^ (52 + ulp_exp y)) \<le> \<bar>y\<bar> * b64_scale"
    by (simp only: le_floor_iff)
  then show ?thesis
    by simp
qed

lemma fl_mono:
  assumes "0 \<le> x" "x \<le> y"
  shows "fl x \<le> fl y"
proof -
  define u where "u = ulp_exp x"
  define v where "v = ulp_exp y"
  have uv: "u \<le> v"
    unfolding u_def v_def using assms by (intro ulp_exp_mono) simp
  have scaled: "x * b64_scale \<le> y * b64_scale"
    using assms b64_scale_pos by simp
  show ?thesis
  proof (cases "u = v")
    case True
    have "x * b64_scale / 2 ^ u \<le> y * b64_scale / 2 ^ u"
      using scaled by (simp add: divide_right_mono)
    then have "round_half_even (x * b64_scale / 2 ^ u) \<le> round_half_even (y * b64_scale / 2 ^ u)"
      by (rule round_half_even_mono)
    then have "(of_int (round_half_even (x * b64_scale / 2 ^ u)) :: real) * 2 ^ u / b64_scale
                 \<le> of_int (round_half_even (y * b64_scale / 2 ^ u)) * 2 ^ u / b64_scale"
      using b64_scale_pos by (intro divide_right_mono mult_right_mono) simp_all
    then show ?thesis
      by (simp add: fl_def flip: u_def v_def True)
  next
    case False
    with uv have lt: "u < v"
      by simp
    have "\<bar>x\<bar> * b64_scale < 2 ^ (53 + u)"
      unfolding u_def by (rule ulp_exp_bound)
    then have "x * b64_scale / 2 ^ u < 2 ^ 53"
      using assms(1) by (simp add: power_add field_simps)
    then have "x * b64_scale / 2 ^ u \<le> of_int (2 ^ 53)"
      by simp
    then have "round_half_even (x * b64_scale / 2 ^ u) \<le> round_half_even (of_int (2 ^ 53))"
      by (rule round_half_even_mono)
    then have rx: "round_half_even (x * b64_scale / 2 ^ u) \<le> 2 ^ 53"
      by (simp only: round_half_even_of_int)
    have "2 ^ (52 + v) \<le> \<bar>y\<bar> * b64_scale"
      unfolding v_def using lt by (intro ulp_exp_lower) (simp add: v_def)
    then have "2 ^ 52 \<le> y * b64_scale / 2 ^ v"
      using assms by (simp add: power_add field_simps)
    then have "of_int (2 ^ 52) \<le> y * b64_scale / 2 ^ v"
      by simp
    then have "round_half_even (of_int (2 ^ 52)) \<le> round_half_even (y * b64_scale / 2 ^ v)"
      by (rule round_half_even_mono)
    then have ry: "2 ^ 52 \<le> round_half_even (y * b64_scale / 2 ^ v)"
      by (simp only: round_half_even_of_int)
    have "(of_int (round_half_even (x * b64_scale / 2 ^ u)) :: real) * 2 ^ u \<le> 2 ^ 53 * 2 ^ u"
      using rx by (intro mult_right_mono) (simp_all add: of_int_le_numeral_power_cancel_iff)
    also have "\<dots> = 2 ^ 52 * 2 ^ Suc u"
      by simp
    also have "\<dots> \<le> 2 ^ 52 * 2 ^ v"
      using lt by (intro mult_left_mono power_increasing) simp_all
    also have "\<dots> \<le> of_int (round_half_even (y * b64_scale / 2 ^ v)) * 2 ^ v"
      using ry by (intro mult_right_mono) (simp_all add: numeral_power_le_of_int_cancel_iff)
    finally have "(of_int (round_half_even (x * b64_scale / 2 ^ u)) :: real) * 2 ^ u / b64_scale
        \<le> of_int (round_half_even (y * b64_scale / 2 ^ v)) * 2 ^ v / b64_scale"
      using b64_scale_pos by (simp add: divide_right_mono)
    then show ?thesis
      by (simp add: fl_def flip: u_def v_def)
  qed
qed

lemma fl_nonneg: "0 \<le> x \<Longrightarrow> 0 \<le> fl x"
  using fl_mono [of 0 x] by (simp add: fl_0)

text \<open>
  The roundings that the tax engine performs at the incomes evaluated below: the five
  rates, and then the results of the operations in the order in which they occur.
\<close>

lemma fl_step_1: "fl (1000000000000000000) = 1000000000000000000"
  using fl_big [of 7 "1000000000000000000"] by (simp add: round_half_even_def Let_def)

lemma fl_rate_15: "fl (3 / 20) = 5404319552844595 / 36028797018963968"
  using fl_small [of 55 "3 / 20"] by (simp add: round_half_even_def Let_def)

lemma fl_rate_18: "fl (9 / 50) = 3242591731706757 / 18014398509481984"
  using fl_small [of 55 "9 / 50"] by (simp add: round_half_even_def Let_def)

lemma fl_rate_21: "fl (21 / 100) = 7566047373982433 / 36028797018963968"
  using fl_small [of 55 "21 / 100"] by (simp add: round_half_even_def Let_def)

lemma fl_rate_23: "fl (23 / 100) = 8286623314361713 / 36028797018963968"
  using fl_small [of 55 "23 / 100"] by (simp add: round_half_even_def Let_def)

lemma fl_rate_25: "fl (1 / 4) = 1 / 4"
  using fl_small [of 54 "1 / 4"] by (simp add: round_half_even_def Let_def)

lemma fl_step_2: "fl (185773484629032953125 / 562949953421312) = 330000"
  using fl_small [of 34 "185773484629032953125 / 562949953421312"] by (simp add: round_half_even_def Let_def)

lemma fl_step_3: "fl (455989462271262703125 / 281474976710656) = 1620000"
  using fl_small [of 32 "455989462271262703125 / 281474976710656"] by (simp add: round_half_even_def Let_def)

lemma fl_step_4: "fl (1536853372840181703125 / 562949953421312) = 2730000"
  using fl_small [of 31 "1536853372840181703125 / 562949953421312"] by (simp add: round_half_even_def Let_def)

lemma fl_step_5: "fl (3236962232172544140625 / 562949953421312) = 5750000"
  using fl_small [of 30 "3236962232172544140625 / 562949953421312"] by (simp add: round_half_even_def Let_def)

lemma fl_step_6: "fl (999999999950000000) = 999999999950000000"
  using fl_big [of 7 "999999999950000000"] by (simp add: round_half_even_def Let_def)

lemma fl_step_7: "fl (249999999987500000) = 249999999987500000"
  using fl_big [of 5 "249999999987500000"] by (simp add: round_half_even_def Let_def)

lemma fl_step_8: "fl (249999999997930000) = 249999999997929984"
  using fl_big [of 5 "249999999997930000"] by (simp add: round_half_even_def Let_def)

lemma fl_step_9: "fl (999999999999200000) = 999999999999200000"
  using fl_big [of 7 "999999999999200000"] by (simp add: round_half_even_def Let_def)

lemma fl_step_10: "fl (999999999997000000) = 999999999996999936"
  using fl_big [of 7 "999999999997000000"] by (simp add: round_half_even_def Let_def)

lemma fl_step_11: "fl (999999999987999936) = 999999999988000000"
  using fl_big [of 7 "999999999987999936"] by (simp add: round_half_even_def Let_def)

lemma fl_step_12: "fl (999999999975000000) = 999999999975000064"
  using fl_big [of 7 "999999999975000000"] by (simp add: round_half_even_def Let_def)

lemma fl_step_13: "fl (999999999950000064) = 999999999950000128"
  using fl_big [of 7 "999999999950000064"] by (simp add: round_half_even_def Let_def)

lemma fl_step_14: "fl (249999999987500032) = 249999999987500032"
  using fl_big [of 5 "249999999987500032"] by (simp add: round_half_even_def Let_def)

lemma fl_step_15: "fl (1000000000000000128) = 1000000000000000128"
  using fl_big [of 7 "1000000000000000128"] by (simp add: round_half_even_def Let_def)

lemma fl_step_16: "fl (249999999997930032) = 249999999997930048"
  using fl_big [of 5 "249999999997930032"] by (simp add: round_half_even_def Let_def)

lemma fl_step_17: "fl (3242591731706757 / 18014398509481984) = 3242591731706757 / 18014398509481984"
  using fl_small [of 55 "3242591731706757 / 18014398509481984"] by (simp add: round_half_even_def Let_def)

lemma fl_step_18: "fl (5944754750720786426757 / 18014398509481984) = 5669359923096453 / 17179869184"
  using fl_small [of 34 "5944754750720786426757 / 18014398509481984"] by (simp add: round_half_even_def Let_def)

lemma fl_step_19: "fl (5669359923096453 / 17179869184) = 5669359923096453 / 17179869184"
  using fl_small [of 34 "5669359923096453 / 17179869184"] by (simp add: round_half_even_def Let_def)

lemma fl_step_20: "fl (50665495807918078125 / 281474976710656) = 180000"
  using fl_small [of 35 "50665495807918078125 / 281474976710656"] by (simp add: round_half_even_def Let_def)

lemma fl_step_21: "fl (2000001 / 2) = 2000001 / 2"
  using fl_small [of 33 "2000001 / 2"] by (simp add: round_half_even_def Let_def)

lemma fl_step_22: "fl (400001 / 2) = 400001 / 2"
  using fl_small [of 35 "400001 / 2"] by (simp add: round_half_even_def Let_def)

lemma fl_step_23: "fl (2161733225457390844595 / 72057594037927936) = 2061589456040755 / 68719476736"
  using fl_small [of 38 "2161733225457390844595 / 72057594037927936"] by (simp add: round_half_even_def Let_def)

lemma fl_step_24: "fl (2061589456040755 / 68719476736) = 2061589456040755 / 68719476736"
  using fl_small [of 38 "2061589456040755 / 68719476736"] by (simp add: round_half_even_def Let_def)

lemmas fl_steps =
  fl_step_1 fl_rate_15 fl_rate_18 fl_rate_21 fl_rate_23 fl_rate_25 fl_step_2 fl_step_3 fl_step_4 fl_step_5 fl_step_6 fl_step_7 fl_step_8 fl_step_9 fl_step_10 fl_step_11 fl_step_12 fl_step_13 fl_step_14 fl_step_15 fl_step_16 fl_step_17 fl_step_18 fl_step_19 fl_step_20 fl_step_21 fl_step_22 fl_step_23 fl_step_24

section \<open>Properties of the tax engine in binary64 arithmetic\<close>

text \<open>The breakdown loop with its local constants inlined, for evaluating it row by row.\<close>

lemma taxBreakdown_loop_b64_row:
  "taxBreakdown_loop_b64 remaining previousLimit (b # bs) =
     \<lparr>limit = limit b, rate = rate b,
      taxable = max (min remaining (bracketCap_b64 (limit b) previousLimit remaining)) 0,
      tax = fl (max (min remaining (bracketCap_b64 (limit b) previousLimit remaining)) 0 * rate b)\<rparr>
     # taxBreakdown_loop_b64
         (fl (remaining - max (min remaining (bracketCap_b64 (limit b) previousLimit remaining)) 0))
         (limit b) bs"
  by (simp add: Let_def)

lemmas b64_eval = fl_1 taxBreakdown_b64_def calculateTax_b64_def TAX_BRACKETS_b64_def TAX_BRACKETS_def
  sum_b64_def taxBreakdown_loop_b64_row calculateTax_loop_b64.simps(2) fl_numeral fl_0 fl_steps

lemma grain_floor:
  assumes "grain p"
  shows "0 \<le> \<lfloor>p / 64\<rfloor>" "\<lfloor>p / 64\<rfloor> < 2 ^ 53" "p = 64 * of_int \<lfloor>p / 64\<rfloor>"
proof -
  from assms have p: "0 \<le> p" "p < 2 ^ 59" and e: "64 * of_int \<lfloor>p / 64\<rfloor> = p"
    by (simp_all add: grain_def)
  show "0 \<le> \<lfloor>p / 64\<rfloor>"
    using p(1) by simp
  have "p / 64 < 2 ^ 53"
    using p(2) by simp
  then show "\<lfloor>p / 64\<rfloor> < 2 ^ 53"
    by (simp add: floor_less_iff)
  show "p = 64 * of_int \<lfloor>p / 64\<rfloor>"
    using e by simp
qed

lemma grain_fl:
  assumes "grain p"
  shows "fl p = p"
proof -
  define W where "W = (2::real) ^ 1080"
  define k where "k = \<lfloor>p / 64\<rfloor>"
  have "p = 64 * of_int k"
    unfolding k_def using assms by (rule grain_floor)
  also have "64 = W / b64_scale"
    unfolding W_def by (rule sixty_four)
  finally have "p = of_int k * W / b64_scale"
    by simp
  then have "p = of_int k * 2 ^ 1080 / b64_scale"
    by (simp only: W_def)
  moreover have "\<bar>k\<bar> < 2 ^ 53"
    unfolding k_def using grain_floor(1,2) [OF assms] by simp
  ultimately show ?thesis
    by (rule fl_exact)
qed

lemma grain_sub:
  assumes "grain p" "fl x = x" "p \<le> x" "x < 2 ^ 59"
  shows "fl (x - p) = x - p"
proof -
  define k where "k = \<lfloor>p / 64\<rfloor>"
  have k: "0 \<le> k" "p = 64 * of_int k"
    using grain_floor [OF assms(1)] by (simp_all add: k_def)
  have "fl (x - 64 * of_int k) = x - 64 * of_int k"
    using assms(2) k(1) assms(3) [unfolded k(2)] assms(4) by (rule fl_sub_aligned)
  then show ?thesis
    by (simp only: k(2) [symmetric])
qed

lemma zero_clamp: "max (min 0 c) 0 = (0::real)"
  by (simp add: max_def min_def)

lemma taxBreakdown_loop_b64_zero:
  "map taxable (taxBreakdown_loop_b64 0 previousLimit bs) = replicate (length bs) 0
   \<and> map tax (taxBreakdown_loop_b64 0 previousLimit bs) = replicate (length bs) 0"
  by (induction bs arbitrary: previousLimit) (simp_all add: Let_def zero_clamp fl_0)

lemma sum_b64_zeros:
  "fl s = s \<Longrightarrow> foldl (\<lambda>s x. fl (s + x)) s (replicate n 0) = s"
  by (induction n) simp_all

lemma taxBreakdown_loop_b64_brackets:
  "map bracket_of (taxBreakdown_loop_b64 remaining previousLimit bs) = bs"
  by (induction bs arbitrary: remaining previousLimit) (simp_all add: Let_def bracket_of_def)

lemma taxBreakdown_loop_b64_last_row:
  assumes "grain p" "p \<le> income"
    and "limit b = Infinity \<or> (\<exists>l. limit b = Finite l \<and> income \<le> l \<and> grain l \<and> p \<le> l)"
  shows "taxBreakdown_loop_b64 (income - p) (Finite p) (b # bs) =
           \<lparr>limit = limit b, rate = rate b, taxable = income - p,
            tax = fl ((income - p) * rate b)\<rparr>
           # taxBreakdown_loop_b64 0 (limit b) bs"
proof -
  have cap: "bracketCap_b64 (limit b) (Finite p) (income - p) = income - p"
  proof (cases "limit b")
    case Infinity
    then show ?thesis by simp
  next
    case (Finite l)
    with assms(3) have l: "income \<le> l" "grain l" "p \<le> l"
      by simp_all
    have "fl (l - p) = l - p"
      using assms(1) grain_fl [OF l(2)] l(3) l(2) by (intro grain_sub) (simp_all add: grain_def)
    with Finite l(1) assms(2) show ?thesis
      by (simp add: min_absorb2 max_absorb1)
  qed
  show ?thesis
    using assms(2) by (simp add: Let_def cap max_absorb1 fl_0)
qed

lemma taxBreakdown_loop_b64_full_row:
  assumes "fl income = income" "income < 2 ^ 59" "grain p" "grain l" "p \<le> l" "l < income"
    and "limit b = Finite l"
  shows "taxBreakdown_loop_b64 (income - p) (Finite p) (b # bs) =
           \<lparr>limit = limit b, rate = rate b, taxable = l - p, tax = fl ((l - p) * rate b)\<rparr>
           # taxBreakdown_loop_b64 (income - l) (Finite l) bs"
proof -
  have w: "fl (l - p) = l - p"
    using assms(3) grain_fl [OF assms(4)] assms(5) assms(4)
    by (intro grain_sub) (simp_all add: grain_def)
  have cap: "max (min (l - p) (income - p)) 0 = l - p"
    using assms(5,6) by (simp add: min_absorb1 max_absorb1)
  have tb: "max (min (income - p) (l - p)) 0 = l - p"
    using assms(5,6) by (simp add: min_absorb2 max_absorb1)
  have rest: "fl (income - l) = income - l"
    using assms(4,1) assms(6) assms(2) by (intro grain_sub) simp_all
  show ?thesis
    by (simp add: Let_def assms(7) w cap tb rest)
qed

declare taxBreakdown_loop_b64.simps(2) [simp del]
declare calculateTax_loop_b64.simps(2) [simp del]

lemma taxable_b64_total:
  assumes "fl income = income" "income < 2 ^ 59"
  shows "grain p \<Longrightarrow> p \<le> income \<Longrightarrow> aligned p bs \<Longrightarrow> bs \<noteq> [] \<Longrightarrow>
         limit (last bs) = Infinity \<Longrightarrow>
         sum_list (map taxable (taxBreakdown_loop_b64 (income - p) (Finite p) bs)) = income - p
         \<and> foldl (\<lambda>s x. fl (s + x)) p
               (map taxable (taxBreakdown_loop_b64 (income - p) (Finite p) bs)) = income"
proof (induction bs arbitrary: p)
  case Nil
  then show ?case by simp
next
  case (Cons b bs)
  show ?case
  proof (cases "limit b = Infinity \<or> (\<exists>l. limit b = Finite l \<and> income \<le> l)")
    case True
    with Cons.prems(3)
    have "limit b = Infinity \<or> (\<exists>l. limit b = Finite l \<and> income \<le> l \<and> grain l \<and> p \<le> l)"
      by auto
    then have row: "taxBreakdown_loop_b64 (income - p) (Finite p) (b # bs) =
           \<lparr>limit = limit b, rate = rate b, taxable = income - p,
            tax = fl ((income - p) * rate b)\<rparr>
           # taxBreakdown_loop_b64 0 (limit b) bs"
      using Cons.prems(1,2) by (intro taxBreakdown_loop_b64_last_row)
    show ?thesis
      by (simp add: row taxBreakdown_loop_b64_zero sum_b64_zeros sum_list_replicate assms(1))
  next
    case False
    then obtain l where l: "limit b = Finite l" "l < income"
      by (cases "limit b") auto
    with Cons.prems(3) have g: "p \<le> l" "grain l" "aligned l bs"
      by simp_all
    from l Cons.prems(4,5) have ne: "bs \<noteq> []" "limit (last bs) = Infinity"
      by (auto split: if_splits)
    have row: "taxBreakdown_loop_b64 (income - p) (Finite p) (b # bs) =
           \<lparr>limit = limit b, rate = rate b, taxable = l - p, tax = fl ((l - p) * rate b)\<rparr>
           # taxBreakdown_loop_b64 (income - l) (Finite l) bs"
      using assms Cons.prems(1) g(2,1) l(2,1) by (rule taxBreakdown_loop_b64_full_row)
    from Cons.IH [OF g(2) _ g(3) ne] l(2)
    have IH: "sum_list (map taxable (taxBreakdown_loop_b64 (income - l) (Finite l) bs)) = income - l"
      "foldl (\<lambda>s x. fl (s + x)) l
         (map taxable (taxBreakdown_loop_b64 (income - l) (Finite l) bs)) = income"
      by simp_all
    show ?thesis
      by (simp add: row IH grain_fl [OF g(2)])
  qed
qed

lemma taxable_b64_unreached:
  assumes "fl income = income" "income < 2 ^ 59"
  shows "grain p \<Longrightarrow> p \<le> income \<Longrightarrow> aligned p bs \<Longrightarrow> Suc j < length bs \<Longrightarrow>
         limit (bs ! j) = Finite l \<Longrightarrow> income \<le> l \<Longrightarrow>
         taxable (taxBreakdown_loop_b64 (income - p) (Finite p) bs ! Suc j) = 0"
proof (induction bs arbitrary: p j)
  case Nil
  then show ?case by simp
next
  case (Cons b bs)
  have zero: "taxable (taxBreakdown_loop_b64 0 q bs ! j) = 0" if "j < length bs" for q
    using that nth_map [of j "taxBreakdown_loop_b64 0 q bs" taxable]
      taxBreakdown_loop_b64_brackets [of 0 q bs, THEN arg_cong, of length]
    by (simp add: taxBreakdown_loop_b64_zero)
  show ?case
  proof (cases "limit b = Infinity \<or> (\<exists>l0. limit b = Finite l0 \<and> income \<le> l0)")
    case True
    with Cons.prems(3)
    have "limit b = Infinity \<or> (\<exists>l. limit b = Finite l \<and> income \<le> l \<and> grain l \<and> p \<le> l)"
      by auto
    then have row: "taxBreakdown_loop_b64 (income - p) (Finite p) (b # bs) =
           \<lparr>limit = limit b, rate = rate b, taxable = income - p,
            tax = fl ((income - p) * rate b)\<rparr>
           # taxBreakdown_loop_b64 0 (limit b) bs"
      using Cons.prems(1,2) by (intro taxBreakdown_loop_b64_last_row)
    from Cons.prems(4) show ?thesis
      by (simp add: row zero)
  next
    case False
    then obtain l0 where l0: "limit b = Finite l0" "l0 < income"
      by (cases "limit b") auto
    with Cons.prems(3) have g: "p \<le> l0" "grain l0" "aligned l0 bs"
      by simp_all
    from l0 Cons.prems(5,6) obtain j' where j: "j = Suc j'"
      by (cases j) auto
    have row: "taxBreakdown_loop_b64 (income - p) (Finite p) (b # bs) =
           \<lparr>limit = limit b, rate = rate b, taxable = l0 - p, tax = fl ((l0 - p) * rate b)\<rparr>
           # taxBreakdown_loop_b64 (income - l0) (Finite l0) bs"
      using assms Cons.prems(1) g(2,1) l0(2,1) by (rule taxBreakdown_loop_b64_full_row)
    have "taxable (taxBreakdown_loop_b64 (income - l0) (Finite l0) bs ! Suc j') = 0"
      using Cons.IH [of l0 j'] g l0(2) Cons.prems(4,5,6) j by simp
    then show ?thesis
      by (simp add: row j)
  qed
qed

lemma calculateTax_loop_b64_breakdown:
  assumes "fl income = income" "income < 2 ^ 59"
  shows "grain p \<Longrightarrow> p \<le> income \<Longrightarrow> aligned p bs \<Longrightarrow> fl t = t \<Longrightarrow>
         calculateTax_loop_b64 income bs t p
           = foldl (\<lambda>s x. fl (s + x)) t
               (map tax (taxBreakdown_loop_b64 (income - p) (Finite p) bs))"
proof (induction bs arbitrary: p t)
  case Nil
  then show ?case by simp
next
  case (Cons b bs)
  have sub: "fl (income - p) = income - p"
    using Cons.prems(1) assms(1) Cons.prems(2) assms(2) by (rule grain_sub)
  show ?case
  proof (cases "limit b = Infinity \<or> (\<exists>l. limit b = Finite l \<and> income \<le> l)")
    case True
    with Cons.prems(3)
    have "limit b = Infinity \<or> (\<exists>l. limit b = Finite l \<and> income \<le> l \<and> grain l \<and> p \<le> l)"
      by auto
    then have row: "taxBreakdown_loop_b64 (income - p) (Finite p) (b # bs) =
           \<lparr>limit = limit b, rate = rate b, taxable = income - p,
            tax = fl ((income - p) * rate b)\<rparr>
           # taxBreakdown_loop_b64 0 (limit b) bs"
      using Cons.prems(1,2) by (intro taxBreakdown_loop_b64_last_row)
    have "calculateTax_loop_b64 income (b # bs) t p = fl (t + fl ((income - p) * rate b))"
      using True by (auto simp: sub calculateTax_loop_b64.simps(2))
    then show ?thesis
      by (simp add: row taxBreakdown_loop_b64_zero sum_b64_zeros fl_idem)
  next
    case False
    then obtain l where l: "limit b = Finite l" "l < income"
      by (cases "limit b") auto
    with Cons.prems(3) have g: "p \<le> l" "grain l" "aligned l bs"
      by simp_all
    have row: "taxBreakdown_loop_b64 (income - p) (Finite p) (b # bs) =
           \<lparr>limit = limit b, rate = rate b, taxable = l - p, tax = fl ((l - p) * rate b)\<rparr>
           # taxBreakdown_loop_b64 (income - l) (Finite l) bs"
      using assms Cons.prems(1) g(2,1) l(2,1) by (rule taxBreakdown_loop_b64_full_row)
    have w: "fl (l - p) = l - p"
      using Cons.prems(1) grain_fl [OF g(2)] g(1) g(2)
      by (intro grain_sub) (simp_all add: grain_def)
    have "calculateTax_loop_b64 income (b # bs) t p
            = calculateTax_loop_b64 income bs (fl (t + fl ((l - p) * rate b))) l"
      using l by (simp add: w calculateTax_loop_b64.simps(2))
    also have "\<dots> = foldl (\<lambda>s x. fl (s + x)) (fl (t + fl ((l - p) * rate b)))
               (map tax (taxBreakdown_loop_b64 (income - l) (Finite l) bs))"
      using l(2) g by (intro Cons.IH) (simp_all add: fl_idem)
    finally show ?thesis
      by (simp add: row)
  qed
qed

lemma grain_0: "grain 0"
  by (simp add: grain_def)

lemma aligned_TAX_BRACKETS_b64: "aligned 0 TAX_BRACKETS_b64"
  by (simp add: TAX_BRACKETS_b64_def TAX_BRACKETS_def grain_def)

lemma rows_at_10_18:
  "map taxable (taxBreakdown_b64 1000000000000000000)
     = [800000, 2200000, 9000000, 13000000, 25000000, 999999999950000128]
   \<and> map tax (taxBreakdown_b64 1000000000000000000)
     = [0, 330000, 1620000, 2730000, 5750000, 249999999987500032]"
  by (simp add: b64_eval)

text \<open>
  C3, as the program computes it. At a total income of \<open>10 ^ 18\<close>, a binary64 number,
  \<open>remaining -= taxable\<close> rounds in the second, third, fourth and fifth bracket, and the
  \<open>taxable\<close> entries add up to \<open>10 ^ 18 + 128\<close>, exactly and as a binary64 sum.
\<close>

theorem taxBreakdown_b64_sum_exceeds_income:
  "is_b64 1000000000000000000
   \<and> map taxable (taxBreakdown_b64 1000000000000000000)
       = [800000, 2200000, 9000000, 13000000, 25000000, 999999999950000128]
   \<and> sum_list (map taxable (taxBreakdown_b64 1000000000000000000)) = 1000000000000000128
   \<and> sum_b64 (map taxable (taxBreakdown_b64 1000000000000000000)) = 1000000000000000128
   \<and> sum_list (map taxable (taxBreakdown_b64 1000000000000000000)) \<noteq> 1000000000000000000"
  by (simp add: rows_at_10_18 is_b64_def below_overflow sum_b64_def fl_numeral fl_0 fl_steps)

text \<open>
  C3, amended. For every total income that is a binary64 number with
  \<open>0 \<le> totalIncome < 2 ^ 59\<close> the breakdown lists every bracket of the configured sequence,
  in order; a bracket whose lower bound (the limit of the bracket before it) is not
  exceeded by the income records a taxable amount of zero; and the \<open>taxable\<close> entries add
  up to the total income, exactly and as a binary64 sum.
\<close>

theorem taxBreakdown_b64_lists_all_and_sums:
  "is_b64 totalIncome \<Longrightarrow> 0 \<le> totalIncome \<Longrightarrow> totalIncome < 2 ^ 59 \<Longrightarrow>
   map bracket_of (taxBreakdown_b64 totalIncome) = TAX_BRACKETS_b64
   \<and> (\<forall>j l. Suc j < length TAX_BRACKETS_b64 \<and> limit (TAX_BRACKETS_b64 ! j) = Finite l
          \<and> totalIncome \<le> l \<longrightarrow> taxable (taxBreakdown_b64 totalIncome ! Suc j) = 0)
   \<and> sum_list (map taxable (taxBreakdown_b64 totalIncome)) = totalIncome
   \<and> sum_b64 (map taxable (taxBreakdown_b64 totalIncome)) = totalIncome"
proof (intro conjI allI impI)
  show "map bracket_of (taxBreakdown_b64 totalIncome) = TAX_BRACKETS_b64"
    unfolding taxBreakdown_b64_def by (rule taxBreakdown_loop_b64_brackets)
next
  fix j l
  assume "is_b64 totalIncome" "0 \<le> totalIncome" "totalIncome < 2 ^ 59"
    and "Suc j < length TAX_BRACKETS_b64 \<and> limit (TAX_BRACKETS_b64 ! j) = Finite l
           \<and> totalIncome \<le> l"
  then show "taxable (taxBreakdown_b64 totalIncome ! Suc j) = 0"
    using taxable_b64_unreached [of totalIncome 0 TAX_BRACKETS_b64 j l]
      grain_0 aligned_TAX_BRACKETS_b64
    by (simp add: taxBreakdown_b64_def is_b64_def)
next
  assume h: "is_b64 totalIncome" "0 \<le> totalIncome" "totalIncome < 2 ^ 59"
  have "TAX_BRACKETS_b64 \<noteq> []" "limit (last TAX_BRACKETS_b64) = Infinity"
    by (simp_all add: TAX_BRACKETS_b64_def TAX_BRACKETS_def)
  with h taxable_b64_total [of totalIncome 0 TAX_BRACKETS_b64] grain_0 aligned_TAX_BRACKETS_b64
  show "sum_list (map taxable (taxBreakdown_b64 totalIncome)) = totalIncome"
    "sum_b64 (map taxable (taxBreakdown_b64 totalIncome)) = totalIncome"
    by (simp_all add: taxBreakdown_b64_def is_b64_def sum_b64_def)
qed

theorem taxBreakdown_b64_lists_all_and_sums_witness:
  "is_b64 (2000001 / 2) \<and> (0::real) \<le> 2000001 / 2 \<and> (2000001 / 2 :: real) < 2 ^ 59
   \<and> map bracket_of (taxBreakdown_b64 (2000001 / 2)) = TAX_BRACKETS_b64
   \<and> map taxable (taxBreakdown_b64 (2000001 / 2)) = [800000, 400001 / 2, 0, 0, 0, 0]
   \<and> taxable (taxBreakdown_b64 (2000001 / 2) ! 2) = 0
   \<and> sum_list (map taxable (taxBreakdown_b64 (2000001 / 2))) = 2000001 / 2
   \<and> sum_b64 (map taxable (taxBreakdown_b64 (2000001 / 2))) = 2000001 / 2"
proof -
  have b: "is_b64 (2000001 / 2)"
    by (simp add: is_b64_def below_overflow fl_steps)
  have h: "(0::real) \<le> 2000001 / 2" "(2000001 / 2 :: real) < 2 ^ 59"
    by simp_all
  have l: "Suc 1 < length TAX_BRACKETS_b64 \<and> limit (TAX_BRACKETS_b64 ! 1) = Finite 3000000
             \<and> (2000001 / 2 :: real) \<le> 3000000"
    by (simp add: TAX_BRACKETS_b64_def TAX_BRACKETS_def)
  from taxBreakdown_b64_lists_all_and_sums [OF b h] l
  have "map bracket_of (taxBreakdown_b64 (2000001 / 2)) = TAX_BRACKETS_b64"
    and "taxable (taxBreakdown_b64 (2000001 / 2) ! Suc 1) = 0"
    and "sum_list (map taxable (taxBreakdown_b64 (2000001 / 2))) = 2000001 / 2"
    and "sum_b64 (map taxable (taxBreakdown_b64 (2000001 / 2))) = 2000001 / 2"
    by blast+
  moreover have "map taxable (taxBreakdown_b64 (2000001 / 2)) = [800000, 400001 / 2, 0, 0, 0, 0]"
    by (simp add: b64_eval)
  ultimately show ?thesis
    using b h by (simp add: numeral_2_eq_2)
qed

text \<open>
  C10, as the program computes it. At an income of \<open>10 ^ 18\<close> \<open>calculateTax\<close> returns
  249999999997929984, and the \<open>tax\<close> entries of the breakdown, added from left to right in
  binary64 arithmetic, give 249999999997930048. Added without rounding the entries differ
  from \<open>calculateTax\<close> already at an income of 3000001.
\<close>

theorem calculateTax_b64_differs_from_breakdown_sum:
  "is_b64 1000000000000000000
   \<and> calculateTax_b64 1000000000000000000 = 249999999997929984
   \<and> sum_b64 (map tax (taxBreakdown_b64 1000000000000000000)) = 249999999997930048
   \<and> sum_list (map tax (taxBreakdown_b64 1000000000000000000)) = 249999999997930032
   \<and> is_b64 3000001
   \<and> calculateTax_b64 3000001 = 5669359923096453 / 17179869184
   \<and> sum_list (map tax (taxBreakdown_b64 3000001)) = 5944754750720786426757 / 18014398509481984
   \<and> calculateTax_b64 3000001 \<noteq> sum_list (map tax (taxBreakdown_b64 3000001))
   \<and> calculateTax_b64 1000000000000000000
       \<noteq> sum_b64 (map tax (taxBreakdown_b64 1000000000000000000))"
proof -
  have "calculateTax_b64 1000000000000000000 = 249999999997929984"
    by (simp add: b64_eval)
  moreover have "sum_b64 (map tax (taxBreakdown_b64 1000000000000000000)) = 249999999997930048"
    "sum_list (map tax (taxBreakdown_b64 1000000000000000000)) = 249999999997930032"
    by (simp_all add: rows_at_10_18 sum_b64_def fl_numeral fl_0 fl_steps)
  moreover have "calculateTax_b64 3000001 = 5669359923096453 / 17179869184"
    by (simp add: b64_eval)
  moreover have "sum_list (map tax (taxBreakdown_b64 3000001))
                  = 5944754750720786426757 / 18014398509481984"
    by (simp add: b64_eval)
  moreover have "is_b64 1000000000000000000" "is_b64 3000001"
    by (simp_all add: is_b64_def below_overflow fl_numeral fl_steps)
  ultimately show ?thesis
    by simp
qed

text \<open>
  C10, amended. For every income that is a binary64 number with \<open>0 \<le> income < 2 ^ 59\<close>,
  \<open>calculateTax\<close> is the binary64 sum of the breakdown's \<open>tax\<close> entries, taken from left to
  right.
\<close>

theorem calculateTax_b64_eq_breakdown_sum:
  "is_b64 income \<Longrightarrow> 0 \<le> income \<Longrightarrow> income < 2 ^ 59 \<Longrightarrow>
   calculateTax_b64 income = sum_b64 (map tax (taxBreakdown_b64 income))"
  using calculateTax_loop_b64_breakdown [of income 0 TAX_BRACKETS_b64 0]
    grain_0 aligned_TAX_BRACKETS_b64
  by (simp add: calculateTax_b64_def taxBreakdown_b64_def sum_b64_def is_b64_def fl_0)

theorem calculateTax_b64_eq_breakdown_sum_witness:
  "is_b64 4000000 \<and> (0::real) \<le> 4000000 \<and> (4000000::real) < 2 ^ 59
   \<and> calculateTax_b64 4000000 = 510000
   \<and> map tax (taxBreakdown_b64 4000000) = [0, 330000, 180000, 0, 0, 0]
   \<and> sum_b64 (map tax (taxBreakdown_b64 4000000)) = 510000"
proof -
  have b: "is_b64 4000000"
    by (simp add: is_b64_def below_overflow fl_numeral)
  have h: "(0::real) \<le> 4000000" "(4000000::real) < 2 ^ 59"
    by simp_all
  have c: "calculateTax_b64 4000000 = 510000"
    by (simp add: b64_eval)
  have r: "map tax (taxBreakdown_b64 4000000) = [0, 330000, 180000, 0, 0, 0]"
    by (simp add: b64_eval)
  from calculateTax_b64_eq_breakdown_sum [OF b h] c
  have "sum_b64 (map tax (taxBreakdown_b64 4000000)) = 510000"
    by simp
  with b h c r show ?thesis
    by simp
qed

text \<open>
  Monotonicity and the bound by the income hold of the binary64 computation as well, for
  every finite binary64 income: the running total only grows, each rounded operation is
  monotone, and at each limit the total so far is below the limit before it.
\<close>

lemma calculateTax_loop_b64_grows:
  "\<forall>b\<in>set bs. 0 \<le> rate b \<Longrightarrow> ascending p bs \<Longrightarrow> p \<le> x \<Longrightarrow> 0 \<le> t \<Longrightarrow> fl t = t \<Longrightarrow>
   t \<le> calculateTax_loop_b64 x bs t p"
proof (induction bs arbitrary: t p)
  case Nil
  then show ?case by simp
next
  case (Cons b bs)
  have step: "t \<le> fl (t + fl (fl (y - p) * rate b)) \<and> 0 \<le> fl (t + fl (fl (y - p) * rate b))"
    if "p \<le> y" for y
  proof -
    have "0 \<le> fl (y - p)"
      using that by (intro fl_nonneg) simp
    moreover have "0 \<le> rate b"
      using Cons.prems(1) by simp
    ultimately have "0 \<le> fl (y - p) * rate b"
      by (rule mult_nonneg_nonneg)
    then have "0 \<le> fl (fl (y - p) * rate b)"
      by (rule fl_nonneg)
    then have "fl t \<le> fl (t + fl (fl (y - p) * rate b))"
      using Cons.prems(4) by (intro fl_mono) simp_all
    with Cons.prems(4,5) show ?thesis
      by simp
  qed
  show ?case
  proof (cases "limit b")
    case Infinity
    with step [OF Cons.prems(3)] show ?thesis
      by (simp add: calculateTax_loop_b64.simps(2))
  next
    case (Finite l)
    show ?thesis
    proof (cases "x \<le> l")
      case True
      with Finite step [OF Cons.prems(3)] show ?thesis
        by (simp add: calculateTax_loop_b64.simps(2))
    next
      case False
      from Finite Cons.prems(2) have pl: "p \<le> l" and asc: "ascending l bs"
        by simp_all
      let ?t = "fl (t + fl (fl (l - p) * rate b))"
      have "?t \<le> calculateTax_loop_b64 x bs ?t l"
        using Cons.prems(1) asc False step [OF pl] by (intro Cons.IH) (simp_all add: fl_idem)
      with step [OF pl] Finite False show ?thesis
        by (simp add: calculateTax_loop_b64.simps(2))
    qed
  qed
qed

lemma calculateTax_loop_b64_mono:
  "\<forall>b\<in>set bs. 0 \<le> rate b \<Longrightarrow> ascending p bs \<Longrightarrow> p \<le> x \<Longrightarrow> x \<le> y \<Longrightarrow> 0 \<le> t \<Longrightarrow>
   fl t = t \<Longrightarrow> calculateTax_loop_b64 x bs t p \<le> calculateTax_loop_b64 y bs t p"
proof (induction bs arbitrary: t p)
  case Nil
  then show ?case by simp
next
  case (Cons b bs)
  have r: "0 \<le> rate b"
    using Cons.prems(1) by simp
  have step: "fl (t + fl (fl (v - p) * rate b)) \<le> fl (t + fl (fl (w - p) * rate b))"
    if "p \<le> v" "v \<le> w" for v w
  proof -
    have m: "fl (v - p) \<le> fl (w - p)"
      using that by (intro fl_mono) simp_all
    have n: "0 \<le> fl (v - p)"
      using that by (intro fl_nonneg) simp
    have n': "0 \<le> fl (v - p) * rate b"
      using n r by (rule mult_nonneg_nonneg)
    have "fl (v - p) * rate b \<le> fl (w - p) * rate b"
      using m r by (rule mult_right_mono)
    with n' have "fl (fl (v - p) * rate b) \<le> fl (fl (w - p) * rate b)"
      by (rule fl_mono)
    moreover have "0 \<le> fl (fl (v - p) * rate b)"
      using n' by (rule fl_nonneg)
    ultimately show ?thesis
      using Cons.prems(5) by (intro fl_mono) simp_all
  qed
  have nonneg: "0 \<le> fl (t + fl (fl (v - p) * rate b))" if "p \<le> v" for v
  proof -
    have "0 \<le> fl (v - p)"
      using that by (intro fl_nonneg) simp
    then have "0 \<le> fl (v - p) * rate b"
      using r by (rule mult_nonneg_nonneg)
    then have "0 \<le> fl (fl (v - p) * rate b)"
      by (rule fl_nonneg)
    with Cons.prems(5) show ?thesis
      by (intro fl_nonneg) simp
  qed
  show ?case
  proof (cases "limit b")
    case Infinity
    with step [OF Cons.prems(3,4)] show ?thesis
      by (simp add: calculateTax_loop_b64.simps(2))
  next
    case (Finite l)
    from Finite Cons.prems(2) have pl: "p \<le> l" and asc: "ascending l bs"
      by simp_all
    let ?t = "fl (t + fl (fl (l - p) * rate b))"
    consider "y \<le> l" | "x \<le> l" "l < y" | "l < x"
      by linarith
    then show ?thesis
    proof cases
      case 1
      with Finite Cons.prems(4) step [OF Cons.prems(3,4)] show ?thesis
        by (simp add: calculateTax_loop_b64.simps(2))
    next
      case 2
      have "calculateTax_loop_b64 x (b # bs) t p = fl (t + fl (fl (x - p) * rate b))"
        using Finite 2 by (simp add: calculateTax_loop_b64.simps(2))
      also have "\<dots> \<le> ?t"
        using Cons.prems(3) 2(1) by (rule step)
      also have "?t \<le> calculateTax_loop_b64 y bs ?t l"
        using Cons.prems(1) asc 2(2) nonneg [OF pl]
        by (intro calculateTax_loop_b64_grows) (simp_all add: fl_idem)
      also have "\<dots> = calculateTax_loop_b64 y (b # bs) t p"
        using Finite 2 by (simp add: calculateTax_loop_b64.simps(2))
      finally show ?thesis .
    next
      case 3
      have "calculateTax_loop_b64 x bs ?t l \<le> calculateTax_loop_b64 y bs ?t l"
        using Cons.prems(1,4) asc 3 nonneg [OF pl] by (intro Cons.IH) (simp_all add: fl_idem)
      with Finite 3 Cons.prems(4) show ?thesis
        by (simp add: calculateTax_loop_b64.simps(2))
    qed
  qed
qed

lemma TAX_BRACKETS_b64_rates: "\<forall>b\<in>set TAX_BRACKETS_b64. 0 \<le> rate b"
  by (simp add: TAX_BRACKETS_b64_def TAX_BRACKETS_def fl_nonneg)

lemma ascending_TAX_BRACKETS_b64: "ascending 0 TAX_BRACKETS_b64"
  by (simp add: TAX_BRACKETS_b64_def TAX_BRACKETS_def)

lemma calculateTax_b64_mono:
  "0 \<le> a \<Longrightarrow> a \<le> b \<Longrightarrow> calculateTax_b64 a \<le> calculateTax_b64 b"
  unfolding calculateTax_b64_def
  using TAX_BRACKETS_b64_rates ascending_TAX_BRACKETS_b64
  by (intro calculateTax_loop_b64_mono) (simp_all add: fl_0)

lemma calculateTax_b64_at_limits:
  "calculateTax_b64 800000 = 0" "calculateTax_b64 3000000 = 330000"
  "calculateTax_b64 12000000 = 1950000" "calculateTax_b64 25000000 = 4680000"
  "calculateTax_b64 50000000 = 10430000"
  by (simp_all add: b64_eval)

lemma fl_quarter:
  assumes "fl x = x" "1 \<le> x"
  shows "fl (x / 4) = x / 4"
proof -
  have x0: "0 \<le> x"
    using assms(2) by simp
  define u where "u = ulp_exp x"
  from assms(1) x0 obtain n where n: "0 \<le> n" "n < 2 ^ 53" and xn: "x = of_int n * 2 ^ u / b64_scale"
    unfolding u_def by (rule fl_fixed_form)
  have "(52::nat) + 1022 = 1074"
    by simp
  then have "(2::real) ^ (52 + 1022) = 1 * b64_scale"
    by (simp only: b64_scale_def mult_1)
  also have "\<dots> \<le> \<bar>x\<bar> * b64_scale"
    using assms(2) b64_scale_pos by (intro mult_right_mono) simp_all
  finally have "1022 \<le> u"
    unfolding u_def by (rule ulp_exp_ge)
  then obtain k where k: "u = 2 + k"
    using le_Suc_ex [of 2 u] by auto
  have "(2::real) ^ u = 2 ^ 2 * 2 ^ (u - 2)"
    unfolding k by (simp only: power_add add_diff_cancel_left')
  then have "x / 4 = of_int n * 2 ^ (u - 2) / b64_scale"
    by (simp add: xn)
  moreover have "\<bar>n\<bar> < 2 ^ 53"
    using n by simp
  ultimately show ?thesis
    by (rule fl_exact)
qed

lemma calculateTax_b64_top:
  "50000000 < x \<Longrightarrow> calculateTax_b64 x = fl (10430000 + fl (fl (x - 50000000) * (1 / 4)))"
  by (simp add: b64_eval)

lemma calculateTax_b64_le:
  assumes "fl a = a" "0 \<le> a"
  shows "calculateTax_b64 a \<le> a"
proof -
  consider "a \<le> 800000" | "800000 < a" "a \<le> 3000000" | "3000000 < a" "a \<le> 12000000"
    | "12000000 < a" "a \<le> 25000000" | "25000000 < a" "a \<le> 50000000" | "50000000 < a"
    by linarith
  then show ?thesis
  proof cases
    case 1
    with calculateTax_b64_mono [OF assms(2), of 800000] assms(2) show ?thesis
      by (simp add: calculateTax_b64_at_limits)
  next
    case 2
    with calculateTax_b64_mono [OF assms(2), of 3000000] show ?thesis
      by (simp add: calculateTax_b64_at_limits)
  next
    case 3
    with calculateTax_b64_mono [OF assms(2), of 12000000] show ?thesis
      by (simp add: calculateTax_b64_at_limits)
  next
    case 4
    with calculateTax_b64_mono [OF assms(2), of 25000000] show ?thesis
      by (simp add: calculateTax_b64_at_limits)
  next
    case 5
    with calculateTax_b64_mono [OF assms(2), of 50000000] show ?thesis
      by (simp add: calculateTax_b64_at_limits)
  next
    case 6
    have "fl (a - 50000000) \<le> fl a"
      using 6 by (intro fl_mono) simp_all
    then have "fl (a - 50000000) * (1 / 4) \<le> a / 4"
      by (simp add: assms(1))
    moreover have "0 \<le> fl (a - 50000000)"
      using 6 by (intro fl_nonneg) simp
    ultimately have "fl (fl (a - 50000000) * (1 / 4)) \<le> fl (a / 4)"
      by (intro fl_mono) simp_all
    also have "fl (a / 4) = a / 4"
      using assms(1) 6 by (intro fl_quarter) simp_all
    finally have "10430000 + fl (fl (a - 50000000) * (1 / 4)) \<le> a"
      using 6 by simp
    moreover have "0 \<le> fl (fl (a - 50000000) * (1 / 4))"
      using \<open>0 \<le> fl (a - 50000000)\<close> by (intro fl_nonneg) simp
    ultimately have "fl (10430000 + fl (fl (a - 50000000) * (1 / 4))) \<le> fl a"
      by (intro fl_mono) simp_all
    with 6 show ?thesis
      by (simp add: calculateTax_b64_top assms(1))
  qed
qed

lemma calculateTax_b64_monotone_bounded:
  "is_b64 a \<Longrightarrow> is_b64 b \<Longrightarrow> 0 \<le> a \<Longrightarrow> a \<le> b \<Longrightarrow>
   calculateTax_b64 a \<le> calculateTax_b64 b \<and> calculateTax_b64 a \<le> a"
  by (simp add: calculateTax_b64_mono calculateTax_b64_le is_b64_def)

section \<open>Character functions on the bits of a character\<close>

text \<open>
  The character functions are defined by the numbers of the code units. For evaluation
  they are restated on the eight bits of a character (least significant first); each
  restatement is proved by going through all 256 characters.
\<close>

lemma code_unit_Char:
  "code_unit (Char b0 b1 b2 b3 b4 b5 b6 b7) =
     of_bool b0 + 2 * of_bool b1 + 4 * of_bool b2 + 8 * of_bool b3 + 16 * of_bool b4
     + 32 * of_bool b5 + 64 * of_bool b6 + 128 * of_bool b7"
  by (simp add: code_unit_def)

lemma isWhiteSpace_code [code]:
  "isWhiteSpace (Char b0 b1 b2 b3 b4 b5 b6 b7) =
     (\<not> b6 \<and> \<not> b4 \<and>
      ((\<not> b7 \<and> \<not> b5 \<and> b3 \<and> ((\<not> b2 \<and> (b1 \<or> b0)) \<or> (b2 \<and> \<not> b1)))
       \<or> (b5 \<and> \<not> b3 \<and> \<not> b2 \<and> \<not> b1 \<and> \<not> b0)))"
  unfolding isWhiteSpace_def code_unit_Char
  by (cases b0; cases b1; cases b2; cases b3; cases b4; cases b5; cases b6; cases b7) simp_all

lemma isLineTerminator_code [code]:
  "isLineTerminator (Char b0 b1 b2 b3 b4 b5 b6 b7) =
     (\<not> b7 \<and> \<not> b6 \<and> \<not> b5 \<and> \<not> b4 \<and> b3 \<and> ((\<not> b2 \<and> b1 \<and> \<not> b0) \<or> (b2 \<and> \<not> b1 \<and> b0)))"
  unfolding isLineTerminator_def code_unit_Char
  by (cases b0; cases b1; cases b2; cases b3; cases b4; cases b5; cases b6; cases b7) simp_all

lemma isDigit_code [code]:
  "isDigit (Char b0 b1 b2 b3 b4 b5 b6 b7) =
     (\<not> b7 \<and> \<not> b6 \<and> b5 \<and> b4 \<and> (\<not> b3 \<or> (\<not> b2 \<and> \<not> b1)))"
  unfolding isDigit_def code_unit_Char
  by (cases b0; cases b1; cases b2; cases b3; cases b4; cases b5; cases b6; cases b7) simp_all

lemma isWordChar_code [code]:
  "isWordChar (Char b0 b1 b2 b3 b4 b5 b6 b7) =
     (\<not> b7 \<and>
      ((b6 \<and> letter_bits b0 b1 b2 b3 b4)
       \<or> (\<not> b6 \<and> b5 \<and> b4 \<and> (\<not> b3 \<or> (\<not> b2 \<and> \<not> b1)))
       \<or> (b6 \<and> \<not> b5 \<and> b4 \<and> b3 \<and> b2 \<and> b1 \<and> b0)))"
  unfolding isWordChar_def isDigit_def code_unit_Char letter_bits_def
  by (cases b0; cases b1; cases b2; cases b3; cases b4; cases b5; cases b6; cases b7) simp_all

lemma toLowerCase_char_code [code]:
  "toLowerCase_char (Char b0 b1 b2 b3 b4 b5 b6 b7) =
     (if \<not> b5 \<and> b6 \<and> (if b7 then latin_bits b0 b1 b2 b3 b4 else letter_bits b0 b1 b2 b3 b4)
      then Char b0 b1 b2 b3 b4 True b6 b7 else Char b0 b1 b2 b3 b4 b5 b6 b7)"
  unfolding toLowerCase_char_def code_unit_Char letter_bits_def latin_bits_def
  by (cases b0; cases b1; cases b2; cases b3; cases b4; cases b5; cases b6; cases b7)
     (simp_all add: char_of_eq_iff)

lemma toUpperCase_char_code [code]:
  "toUpperCase_char (Char b0 b1 b2 b3 b4 b5 b6 b7) =
     (if b5 \<and> b6 \<and> (if b7 then latin_bits b0 b1 b2 b3 b4 else letter_bits b0 b1 b2 b3 b4)
      then Char b0 b1 b2 b3 b4 False b6 b7 else Char b0 b1 b2 b3 b4 b5 b6 b7)"
  unfolding toUpperCase_char_def code_unit_Char letter_bits_def latin_bits_def
  by (cases b0; cases b1; cases b2; cases b3; cases b4; cases b5; cases b6; cases b7)
     (simp_all add: char_of_eq_iff)

section \<open>The expressions written in the program, compiled\<close>

text \<open>
  The parser turns the source text of the program's expression literals into the
  expressions used above (for the first amount pattern: without the naira alternative,
  whose sign the texts of this model cannot spell).
\<close>

lemma amount_pattern_sources:
  "parse (''(?:NGN|N)'' @ bsl @ ''s*([0-9,.]+)'')
     = Inr (seq_of [alt_of [seq_of (lit ''NGN''), Chr CHR ''N''],
                    Star True (Cls False [CSpace]), Group 1 digits_commas_dots])"
  "parse (''credited'' @ bsl @ ''s+with'' @ bsl @ ''s+([0-9,.]+)'')
     = Inr (pattern (hd (tl amount_patterns)))"
  "parse (''received'' @ bsl @ ''s+([0-9,.]+)'') = Inr (pattern (hd (tl (tl amount_patterns))))"
  by code_simp+

lemma description_pattern_source:
  "parse (''(?:from|narration|desc|description)[:'' @ bsl @ ''s]+([^'' @ bsl @ ''.'' @ bsl @ ''n]+)'')
     = Inr (pattern description_pattern)"
  by code_simp

lemma critical_debit_sources:
  "parse (bsl @ ''b'' @ ''debit'' @ bsl @ ''b'')
     = Inr (seq_of ([WordB True] @ lit ''debit'' @ [WordB True]))"
  "parse (bsl @ ''b'' @ ''dr'' @ bsl @ ''b'') = Inr (seq_of ([WordB True] @ lit ''dr'' @ [WordB True]))"
  by code_simp+

text \<open>A name without pattern syntax is compiled to its own characters, as a literal.\<close>

lemma receiver_source_plain_name:
  "parse (bsl @ ''bto'' @ bsl @ ''s+'' @ ''john doe'' @ bsl @ ''b'')
     = Inr (seq_of ([WordB True] @ lit ''to'' @ [spaces] @ lit ''john doe'' @ [WordB True]))"
  by code_simp

text \<open>A dot in the name is compiled to the wildcard, and an open parenthesis is an error.\<close>

lemma receiver_source_metacharacters:
  "parse (bsl @ ''bto'' @ bsl @ ''s+'' @ ''j.doe'' @ bsl @ ''b'')
     = Inr (seq_of ([WordB True] @ lit ''to'' @ [spaces] @ lit ''j'' @ [Dot] @ lit ''doe''
                    @ [WordB True]))"
  "parse (bsl @ ''bto'' @ bsl @ ''s+'' @ ''john (jr'' @ bsl @ ''b'') = Inl SyntaxError"
  by code_simp+

section \<open>The parser's verdict does not depend on what precedes the name\<close>

lemma sim_normal_step:
  "sim a b \<Longrightarrow> rel_sum (=) sim (normal_step c a) (normal_step c b)"
  unfolding sim_def normal_step_def close_group_def quantify_def make_lazy_def push_term_def
  by (cases "stack a"; cases "stack b"; cases "terms (cur a)"; cases "terms (cur b)")
     (simp_all)

lemma sim_push_term: "sim a b \<Longrightarrow> sim (push_term r q a) (push_term r' q b)"
  by (simp add: sim_def push_term_def)

lemma sim_open_group: "sim a b \<Longrightarrow> sim (open_group g a) (open_group g b)"
  by (simp add: sim_def open_group_def empty_frame_def)

lemma sim_mode: "sim a b \<Longrightarrow> sim (a\<lparr>pmode := m\<rparr>) (b\<lparr>pmode := m\<rparr>)"
  by (simp add: sim_def)

lemma sim_escape_step:
  "sim a b \<Longrightarrow> rel_sum (=) sim (escape_step c a) (escape_step c b)"
  unfolding escape_step_def
  by (auto simp: sim_push_term split: option.splits)

lemma sim_class_escape_step:
  "sim a b \<Longrightarrow> rel_sum (=) sim (class_escape_step c neg items a) (class_escape_step c neg items b)"
  unfolding class_escape_step_def
  by (auto simp: sim_mode split: option.splits)

lemma sim_class_step:
  "sim a b \<Longrightarrow> rel_sum (=) sim (class_step c neg items p a) (class_step c neg items p b)"
  unfolding class_step_def
  by (auto simp: sim_mode sim_push_term split: pend.splits)

lemma sim_step: "sim a b \<Longrightarrow> rel_sum (=) sim (step c a) (step c b)"
proof -
  assume s: "sim a b"
  then have m: "pmode b = pmode a" by (simp add: sim_def)
  show ?thesis
    unfolding step_def m
    using s
    by (cases "pmode a")
       (simp_all add: sim_normal_step sim_escape_step sim_class_step sim_class_escape_step
          sim_mode sim_open_group sim_push_term)
qed

lemma sim_finish: "sim a b \<Longrightarrow> rel_sum (=) (\<lambda>_ _. True) (finish a) (finish b)"
proof -
  assume s: "sim a b"
  then have m: "pmode b = pmode a" by (simp add: sim_def)
  from s have e: "(stack b = []) = (stack a = [])" by (auto simp: sim_def)
  show ?thesis
    unfolding finish_def m e
    by (cases "pmode a") simp_all
qed

lemma sim_run_steps: "sim a b \<Longrightarrow> rel_sum (=) sim (run_steps cs a) (run_steps cs b)"
proof (induction cs arbitrary: a b)
  case Nil
  then show ?case by simp
next
  case (Cons c cs)
  from sim_step [OF Cons.prems, of c] show ?case
    by (cases "step c a"; cases "step c b") (simp_all add: Cons.IH)
qed

lemma run_steps_append:
  "run_steps (xs @ ys) st =
     (case run_steps xs st of Inl f \<Rightarrow> Inl f | Inr st' \<Rightarrow> run_steps ys st')"
  by (induction xs arbitrary: st) (simp_all split: sum.splits)

lemma ready_parse:
  assumes "ready p" "ready q"
  shows "rel_sum (=) (\<lambda>_ _. True) (parse (p @ rest)) (parse (q @ rest))"
proof -
  from assms obtain a b where a: "run_steps p initial = Inr a" and b: "run_steps q initial = Inr b"
    and s: "sim a b"
    by (auto simp: ready_def sim_def split: sum.splits)
  from sim_run_steps [OF s, of rest] show ?thesis
    unfolding parse_def run_steps_append a b
    by (cases "run_steps rest a"; cases "run_steps rest b") (simp_all add: sim_finish)
qed

lemma ready_parse_fault:
  "ready p \<Longrightarrow> ready q \<Longrightarrow> parse (p @ rest) = Inl f \<Longrightarrow> parse (q @ rest) = Inl f"
  using ready_parse [of p q rest] by (cases "parse (q @ rest)") simp_all

lemma ready_parse_ok:
  "ready p \<Longrightarrow> ready q \<Longrightarrow> parse (p @ rest) = Inr r \<Longrightarrow> \<exists>r'. parse (q @ rest) = Inr r'"
  using ready_parse [of p q rest] by (cases "parse (q @ rest)") simp_all

lemma receiver_sources_prefixes:
  "receiver_sources name = map (\<lambda>p. p @ name @ bsl @ ''b'') receiver_prefixes"
  by (simp add: receiver_sources_def receiver_prefixes_def)

lemma sender_sources_prefixes:
  "sender_sources name = map (\<lambda>p. p @ name @ bsl @ ''b'') sender_prefixes"
  by (simp add: sender_sources_def sender_prefixes_def)

lemma ready_receiver_prefixes: "list_all ready receiver_prefixes"
  by code_simp

lemma ready_sender_prefixes: "list_all ready sender_prefixes"
  by code_simp

lemma ready_first: "ready (bsl @ ''bto'' @ bsl @ ''s+'')"
  by code_simp

text \<open>All patterns built around one name compile, or all fail with the same fault.\<close>

lemma build_all_ready:
  assumes "list_all ready ps" "ready q"
  shows "parse (q @ rest) = Inl f \<Longrightarrow> ps \<noteq> [] \<Longrightarrow> build_all (map (\<lambda>p. p @ rest) ps) = Inl f"
    and "parse (q @ rest) = Inr r \<Longrightarrow> \<exists>res. build_all (map (\<lambda>p. p @ rest) ps) = Inr res"
proof -
  show "parse (q @ rest) = Inl f \<Longrightarrow> ps \<noteq> [] \<Longrightarrow> build_all (map (\<lambda>p. p @ rest) ps) = Inl f"
    using assms(1)
  proof (induction ps)
    case Nil
    then show ?case by simp
  next
    case (Cons p ps)
    then have "parse (p @ rest) = Inl f"
      using ready_parse_fault [OF assms(2), of p rest f] by simp
    then show ?case by (simp add: RegExp_i_def)
  qed
  show "parse (q @ rest) = Inr r \<Longrightarrow> \<exists>res. build_all (map (\<lambda>p. p @ rest) ps) = Inr res"
    using assms(1)
  proof (induction ps)
    case Nil
    then show ?case by simp
  next
    case (Cons p ps)
    then obtain r' where "parse (p @ rest) = Inr r'"
      using ready_parse_ok [OF assms(2), of p rest r] by auto
    moreover from Cons obtain res where "build_all (map (\<lambda>p. p @ rest) ps) = Inr res"
      by auto
    ultimately show ?case by (simp add: RegExp_i_def)
  qed
qed

lemma receiver_build_cases:
  "(\<exists>f. build_all (receiver_sources name) = Inl f \<and> build_all (sender_sources name) = Inl f)
   \<or> (\<exists>rs ss. build_all (receiver_sources name) = Inr rs \<and> build_all (sender_sources name) = Inr ss)"
proof (cases "parse ((bsl @ ''bto'' @ bsl @ ''s+'') @ name @ bsl @ ''b'')")
  case (Inl f)
  have "build_all (receiver_sources name) = Inl f"
    unfolding receiver_sources_prefixes
    by (rule build_all_ready(1) [OF ready_receiver_prefixes ready_first Inl])
       (simp add: receiver_prefixes_def)
  moreover have "build_all (sender_sources name) = Inl f"
    unfolding sender_sources_prefixes
    by (rule build_all_ready(1) [OF ready_sender_prefixes ready_first Inl])
       (simp add: sender_prefixes_def)
  ultimately show ?thesis by blast
next
  case (Inr r)
  have "\<exists>rs. build_all (receiver_sources name) = Inr rs"
    unfolding receiver_sources_prefixes
    by (rule build_all_ready(2) [OF ready_receiver_prefixes ready_first Inr])
  moreover have "\<exists>ss. build_all (sender_sources name) = Inr ss"
    unfolding sender_sources_prefixes
    by (rule build_all_ready(2) [OF ready_sender_prefixes ready_first Inr])
  ultimately show ?thesis by blast
qed

lemma isUserSender_fault_iff:
  "isUserSender name text = Inl f \<longleftrightarrow> isUserReceiver name text' = Inl f"
  using receiver_build_cases [of "toLowerCase (trim name)"]
  by (auto simp: isUserSender_def isUserReceiver_def)

lemma critical_debit_total:
  "critical_debit CRITICAL_DEBIT_KEYWORDS text \<noteq> Inl f"
proof -
  have "isl (RegExp_i (bsl @ ''b'' @ ''debit'' @ bsl @ ''b'')) = False"
    "isl (RegExp_i (bsl @ ''b'' @ ''dr'' @ bsl @ ''b'')) = False"
    by code_simp+
  then show ?thesis
    by (auto simp: CRITICAL_DEBIT_KEYWORDS_def split: sum.splits)
qed

section \<open>Names without pattern syntax\<close>

text \<open>
  A name that holds none of the characters with a meaning in a pattern is compiled to its
  own characters: the receiver pattern then looks for the name itself, letter case aside.
\<close>

lemma normal_step_plain:
  "\<not> syntax_char c \<Longrightarrow> normal_step c st = Inr (push_term (Chr c) QAtom st)"
  by (simp add: syntax_char_def normal_step_def)

lemma run_steps_plain:
  "pmode st = Normal \<Longrightarrow> list_all (\<lambda>c. \<not> syntax_char c) name \<Longrightarrow>
   run_steps name st =
     Inr (st\<lparr>cur := (cur st)\<lparr>terms := rev (map Chr name) @ terms (cur st),
                                quant := (if name = [] then quant (cur st) else QAtom)\<rparr>\<rparr>)"
proof (induction name arbitrary: st)
  case Nil
  then show ?case by simp
next
  case (Cons c name)
  have "run_steps (c # name) st = run_steps name (push_term (Chr c) QAtom st)"
    using Cons.prems by (simp add: step_def normal_step_plain)
  also have "\<dots> = Inr ((push_term (Chr c) QAtom st)
      \<lparr>cur := (cur (push_term (Chr c) QAtom st))
         \<lparr>terms := rev (map Chr name) @ terms (cur (push_term (Chr c) QAtom st)),
          quant := (if name = [] then quant (cur (push_term (Chr c) QAtom st)) else QAtom)\<rparr>\<rparr>)"
    using Cons.prems by (intro Cons.IH) (simp_all add: push_term_def)
  finally show ?case using Cons.prems(1) by (simp add: push_term_def)
qed

lemma word_boundary_steps:
  "pmode st = Normal \<Longrightarrow>
   run_steps (bsl @ ''b'') st = Inr (push_term (WordB True) QAssertion st)"
  by (simp add: bsl_def step_def normal_step_def escape_step_def push_term_def backslash_def)

lemma to_prefix_steps:
  "run_steps (bsl @ ''bto'' @ bsl @ ''s+'') initial =
     Inr \<lparr>pmode = Normal,
          cur = \<lparr>alts = [], terms = rev ([WordB True] @ lit ''to'' @ [spaces]),
                 quant = QQuantified, group_no = None\<rparr>,
          stack = [], ngroups = 0\<rparr>"
  by code_simp

lemma plain_name_is_literal:
  assumes "list_all (\<lambda>c. \<not> syntax_char c) name"
  shows "parse (bsl @ ''bto'' @ bsl @ ''s+'' @ name @ bsl @ ''b'')
     = Inr (seq_of ([WordB True] @ lit ''to'' @ [spaces] @ lit name @ [WordB True]))"
proof -
  define p where "p = bsl @ ''bto'' @ bsl @ ''s+''"
  define e where "e = bsl @ ''b''"
  define a where "a = \<lparr>pmode = Normal,
          cur = \<lparr>alts = [], terms = rev ([WordB True] @ lit ''to'' @ [spaces]),
                 quant = QQuantified, group_no = None\<rparr>,
          stack = [], ngroups = 0\<rparr>"
  define b where "b = a\<lparr>cur := (cur a)\<lparr>terms := rev (map Chr name) @ terms (cur a),
                                 quant := (if name = [] then quant (cur a) else QAtom)\<rparr>\<rparr>"
  have 1: "run_steps p initial = Inr a"
    unfolding p_def a_def by (rule to_prefix_steps)
  have 2: "run_steps name a = Inr b"
    unfolding b_def by (rule run_steps_plain [OF _ assms]) (simp add: a_def)
  have 3: "run_steps e b = Inr (push_term (WordB True) QAssertion b)"
    unfolding e_def by (rule word_boundary_steps) (simp add: b_def a_def)
  have "run_steps (p @ name @ e) initial = Inr (push_term (WordB True) QAssertion b)"
    by (simp only: run_steps_append [of p] run_steps_append [of name] 1 2 3 sum.case)
  then have "parse (p @ name @ e)
      = Inr (seq_of ([WordB True] @ lit ''to'' @ [spaces] @ lit name @ [WordB True]))"
    by (simp add: parse_def finish_def push_term_def close_frame_def lit_def b_def a_def)
  then show ?thesis by (simp add: p_def e_def)
qed


lemma plain_name_no_fault:
  assumes "list_all (\<lambda>c. \<not> syntax_char c) (toLowerCase (trim name))"
  shows "\<exists>r. isUserReceiver name text = Inr r" and "\<exists>s. isUserSender name text = Inr s"
proof -
  let ?n = "toLowerCase (trim name)"
  have p: "parse ((bsl @ ''bto'' @ bsl @ ''s+'') @ ?n @ bsl @ ''b'')
      = Inr (seq_of ([WordB True] @ lit ''to'' @ [spaces] @ lit ?n @ [WordB True]))"
    using plain_name_is_literal [OF assms] by simp
  have "\<exists>rs. build_all (receiver_sources ?n) = Inr rs"
    unfolding receiver_sources_prefixes
    by (rule build_all_ready(2) [OF ready_receiver_prefixes ready_first p])
  then show "\<exists>r. isUserReceiver name text = Inr r"
    by (auto simp: isUserReceiver_def)
  have "\<exists>ss. build_all (sender_sources ?n) = Inr ss"
    unfolding sender_sources_prefixes
    by (rule build_all_ready(2) [OF ready_sender_prefixes ready_first p])
  then show "\<exists>s. isUserSender name text = Inr s"
    by (auto simp: isUserSender_def)
qed

section \<open>Properties of the classifier\<close>

lemma isDebitTransaction_eq:
  "isDebitTransaction text =
     (case critical_debit CRITICAL_DEBIT_KEYWORDS text of
        Inl f \<Rightarrow> Inl f
      | Inr critical \<Rightarrow> Inr (critical \<or> debit_keyword text))"
  by (simp add: isDebitTransaction_def split: sum.splits)

text \<open>
  C1. For every text and optional profile the handler acts on the decision that the seven
  rules of the specification produce when they are tried in their order, the first match
  winning. (A name whose patterns cannot be built makes both sides raise.)
\<close>

theorem handleAddTransaction_follows_decision_order:
  "handleAddTransaction w st = apply_decision w st (classify_spec (smsText st) (userName st))"
proof (cases "trim (smsText st) = []")
  case True
  then show ?thesis
    by (simp add: handleAddTransaction_def classify_spec_def apply_decision_def)
next
  case False
  show ?thesis
  proof (cases "isUserReceiver (userName st) (smsText st)")
    case (Inl f)
    with False show ?thesis
      by (simp add: handleAddTransaction_def classify_spec_def apply_decision_def)
  next
    case (Inr receiver)
    then obtain sender where s: "isUserSender (userName st) (smsText st) = Inr sender"
      using isUserSender_fault_iff [of "userName st" "smsText st" _ "smsText st"]
      by (cases "isUserSender (userName st) (smsText st)") auto
    obtain critical where c: "critical_debit CRITICAL_DEBIT_KEYWORDS (smsText st) = Inr critical"
      using critical_debit_total [of "smsText st"]
      by (cases "critical_debit CRITICAL_DEBIT_KEYWORDS (smsText st)") auto
    from False Inr s c show ?thesis
      by (simp add: handleAddTransaction_def classify_spec_def apply_decision_def
            isDebitTransaction_eq)
  qed
qed

theorem handleAddTransaction_follows_decision_order_witness:
  "classify_spec ''Your account was debited N2,000 by John'' []
     = Inr (RejectedDebit ''Debit detected! Only credit income alerts are accepted.'')
   \<and> fst (handleAddTransaction (world_at ''2025-01-02T03:04:05.678Z'')
            (state_with [] ''Your account was debited N2,000 by John'' [])) = DebitRejected
   \<and> classify_spec ''You have received a credit of N5,000 from Mary'' [] = Inr Accepted
   \<and> handleAddTransaction (world_at ''2025-01-02T03:04:05.678Z'')
         (state_with [] ''You have received a credit of N5,000 from Mary'' [])
       = acceptCredit (world_at ''2025-01-02T03:04:05.678Z'')
           (state_with [] ''You have received a credit of N5,000 from Mary'' [])"
proof -
  let ?w = "world_at ''2025-01-02T03:04:05.678Z''"
  let ?a = "state_with [] ''Your account was debited N2,000 by John'' []"
  let ?b = "state_with [] ''You have received a credit of N5,000 from Mary'' []"
  have a: "classify_spec (smsText ?a) (userName ?a)
      = Inr (RejectedDebit ''Debit detected! Only credit income alerts are accepted.'')"
    and b: "classify_spec (smsText ?b) (userName ?b) = Inr Accepted"
    by code_simp+
  from handleAddTransaction_follows_decision_order [of ?w ?a]
    handleAddTransaction_follows_decision_order [of ?w ?b] a b
  show ?thesis by (simp add: apply_decision_def state_with_def)
qed

text \<open>
  C2. For a text that is not blank and a present profile: when a receiver pattern for the
  profile's name matches, the handler goes to \<open>acceptCredit\<close>, whatever debit terms the
  text holds.
\<close>

theorem receiver_override:
  "trim (smsText st) \<noteq> [] \<Longrightarrow> userName st \<noteq> [] \<Longrightarrow>
   isUserReceiver (userName st) (smsText st) = Inr True \<Longrightarrow>
   handleAddTransaction w st = acceptCredit w st
   \<and> classify_spec (smsText st) (userName st) = Inr Accepted"
  by (simp add: handleAddTransaction_def classify_spec_def)

theorem receiver_override_witness:
  "handleAddTransaction (world_at ''2025-01-02T03:04:05.678Z'')
       (state_with ''John Doe'' ''NGN10,000 credited to John Doe'' [])
     = acceptCredit (world_at ''2025-01-02T03:04:05.678Z'')
         (state_with ''John Doe'' ''NGN10,000 credited to John Doe'' [])
   \<and> classify_spec ''NGN10,000 credited to John Doe'' ''John Doe'' = Inr Accepted
   \<and> isDebitTransaction ''NGN10,000 credited to John Doe, debited from sender'' = Inr True
   \<and> handleAddTransaction (world_at ''2025-01-02T03:04:05.678Z'')
       (state_with ''John Doe'' ''NGN10,000 credited to John Doe, debited from sender'' [])
     = acceptCredit (world_at ''2025-01-02T03:04:05.678Z'')
         (state_with ''John Doe'' ''NGN10,000 credited to John Doe, debited from sender'' [])
   \<and> classify_spec ''NGN10,000 credited to John Doe, debited from sender'' ''John Doe''
     = Inr Accepted"
proof -
  let ?w = "world_at ''2025-01-02T03:04:05.678Z''"
  let ?a = "state_with ''John Doe'' ''NGN10,000 credited to John Doe'' []"
  let ?b = "state_with ''John Doe'' ''NGN10,000 credited to John Doe, debited from sender'' []"
  have a: "trim (smsText ?a) \<noteq> []" "userName ?a \<noteq> []"
    "isUserReceiver (userName ?a) (smsText ?a) = Inr True"
    by code_simp+
  have b: "trim (smsText ?b) \<noteq> []" "userName ?b \<noteq> []"
    "isUserReceiver (userName ?b) (smsText ?b) = Inr True"
    by code_simp+
  have d: "isDebitTransaction ''NGN10,000 credited to John Doe, debited from sender'' = Inr True"
    by code_simp
  from receiver_override [OF a, of ?w] receiver_override [OF b, of ?w] d
  show ?thesis by (simp add: state_with_def)
qed

text \<open>
  With no profile, or a name without pattern syntax, the rules always reach a decision.
\<close>

lemma classify_spec_decides:
  assumes "list_all (\<lambda>c. \<not> syntax_char c) (toLowerCase (trim name))"
  shows "\<exists>d. classify_spec text name = Inr d"
proof -
  obtain r s c where "isUserReceiver name text = Inr r" "isUserSender name text = Inr s"
    "critical_debit CRITICAL_DEBIT_KEYWORDS text = Inr c"
    using plain_name_no_fault [OF assms, of "text"] critical_debit_total [of "text"]
    by (cases "critical_debit CRITICAL_DEBIT_KEYWORDS text") auto
  then show ?thesis by (simp add: classify_spec_def)
qed

text \<open>
  C5. The profile name is not escaped before it is interpolated. With the name
  \<open>J.Doe\<close> the dot is read as the wildcard: an alert that never mentions the name (and
  holds the debit keyword \<open>sent to\<close>) is accepted through the receiver rule. With the name
  \<open>John (Jr\<close> the patterns cannot be built and the handler ends with a \<open>SyntaxError\<close>.
\<close>

theorem name_is_read_as_pattern_syntax:
  "\<not> includes_str (toLowerCase ''N500 sent to jxdoe'') (toLowerCase (trim ''J.Doe''))
   \<and> isUserReceiver ''J.Doe'' ''N500 sent to jxdoe'' = Inr True
   \<and> isDebitTransaction ''N500 sent to jxdoe'' = Inr True
   \<and> fst (handleAddTransaction (world_at ''2025-01-02T03:04:05.678Z'')
            (state_with ''J.Doe'' ''N500 sent to jxdoe'' [])) = Added
   \<and> isUserReceiver ''John (Jr'' ''N500 credited to John (Jr'' = Inl SyntaxError
   \<and> handleAddTransaction (world_at ''2025-01-02T03:04:05.678Z'')
         (state_with ''John (Jr'' ''N500 credited to John (Jr'' [])
       = (Threw SyntaxError, state_with ''John (Jr'' ''N500 credited to John (Jr'' [])"
  by code_simp

section \<open>Properties of field extraction\<close>



text \<open>
  C9, as the program has it. \<open>extractDate\<close> takes the text only and reads the clock itself:
  the same text gives different dates on different days.
\<close>

theorem extractDate_not_a_function_of_text:
  "extractDate (world_at ''2025-01-02T03:04:05.678Z'') ''Salary received N5,000''
   \<noteq> extractDate (world_at ''2025-01-03T03:04:05.678Z'') ''Salary received N5,000''"
  by code_simp

text \<open>
  C9, amended. The date is determined by the text and the reading of the global clock at
  the call: with a date pattern in the text it does not depend on the clock; without one
  it is the clock's ISO string up to the \<open>T\<close>; two calls on the same text with the same
  clock reading give the same date.
\<close>

theorem extractDate_text_and_clock:
  "(matched date_pattern text \<longrightarrow> extractDate w text = extractDate w' text)
   \<and> (\<not> matched date_pattern text \<longrightarrow>
        extractDate w text = takeWhile (\<lambda>c. c \<noteq> CHR ''T'') (now_iso w))
   \<and> (now_iso w = now_iso w' \<longrightarrow> extractDate w text = extractDate w' text)"
  by (auto simp: extractDate_def matched_def split: option.splits)

theorem extractDate_text_and_clock_witness:
  "matched date_pattern ''Credit 02/01/2025 N500''
   \<and> extractDate (world_at ''2025-06-07T03:04:05.678Z'') ''Credit 02/01/2025 N500'' = ''02-01-2025''
   \<and> extractDate (world_at ''2025-06-08T03:04:05.678Z'') ''Credit 02/01/2025 N500'' = ''02-01-2025''
   \<and> \<not> matched date_pattern ''Salary received N5,000''
   \<and> extractDate (world_at ''2025-06-07T03:04:05.678Z'') ''Salary received N5,000'' = ''2025-06-07''"
proof -
  let ?w = "world_at ''2025-06-07T03:04:05.678Z''"
  let ?w' = "world_at ''2025-06-08T03:04:05.678Z''"
  have m: "matched date_pattern ''Credit 02/01/2025 N500''"
    and d: "extractDate ?w ''Credit 02/01/2025 N500'' = ''02-01-2025''"
    and n: "\<not> matched date_pattern ''Salary received N5,000''"
    and c: "takeWhile (\<lambda>c. c \<noteq> CHR ''T'') (now_iso ?w) = ''2025-06-07''"
    by code_simp+
  from extractDate_text_and_clock [of "''Credit 02/01/2025 N500''" ?w ?w'] m d
  have "extractDate ?w' ''Credit 02/01/2025 N500'' = ''02-01-2025''" by simp
  moreover from extractDate_text_and_clock [of "''Salary received N5,000''" ?w ?w'] n c
  have "extractDate ?w ''Salary received N5,000'' = ''2025-06-07''" by simp
  ultimately show ?thesis using m d n by simp
qed

section \<open>Properties of the add-transaction flow\<close>

lemma acceptCredit_cases:
  "acceptCredit w st = (out, st') \<Longrightarrow>
   (out = ExtractionFailed \<and> amount (parseSMS w (smsText st)) \<le> 0
      \<and> st' = st\<lparr>error := ''Could not extract a valid amount from the SMS.''\<rparr>)
   \<or> (out = Added \<and> 0 < amount (parseSMS w (smsText st))
      \<and> transactions st' = parseSMS w (smsText st) # transactions st)
   \<or> (out = Threw StorageFailure \<and> \<not> storage_ok w \<and> 0 < amount (parseSMS w (smsText st))
      \<and> transactions st' = parseSMS w (smsText st) # transactions st)"
  by (auto simp: acceptCredit_def Let_def flashError_def flashSuccess_def split: if_splits)

lemma handleAddTransaction_cases:
  assumes "handleAddTransaction w st = (out, st')"
  shows "(out = EmptyInput \<and> st' = st\<lparr>error := ''Please enter SMS text or use OCR.''\<rparr>)
   \<or> (out = DebitRejected
       \<and> st' = st\<lparr>showDebitPopup := True,
                   error := ''Debit detected! Only credit income alerts are accepted.''\<rparr>)
   \<or> (out = AmbiguousAlert \<and> st' = st\<lparr>error := ''Unable to confirm this is a credit alert.''\<rparr>)
   \<or> (\<exists>f. out = Threw f \<and> st' = st \<and> (\<forall>text. isUserReceiver (userName st) text = Inl f))
   \<or> acceptCredit w st = (out, st')"
proof (cases "trim (smsText st) = []")
  case True
  with assms show ?thesis by (auto simp: handleAddTransaction_def flashError_def)
next
  case False
  show ?thesis
  proof (cases "isUserReceiver (userName st) (smsText st)")
    case (Inl f)
    then have "\<forall>text. isUserReceiver (userName st) text = Inl f"
      using isUserSender_fault_iff [of "userName st" "smsText st" f] by blast
    with assms False Inl show ?thesis by (auto simp: handleAddTransaction_def)
  next
    case (Inr receiver)
    then obtain sender where s: "isUserSender (userName st) (smsText st) = Inr sender"
      using isUserSender_fault_iff [of "userName st" "smsText st" _ "smsText st"]
      by (cases "isUserSender (userName st) (smsText st)") auto
    obtain critical where c: "critical_debit CRITICAL_DEBIT_KEYWORDS (smsText st) = Inr critical"
      using critical_debit_total [of "smsText st"]
      by (cases "critical_debit CRITICAL_DEBIT_KEYWORDS (smsText st)") auto
    from assms False Inr s c show ?thesis
      by (auto simp: handleAddTransaction_def isDebitTransaction_eq flashError_def
            split: if_splits)
  qed
qed

text \<open>
  C7. Every rejection ends the handler normally, with a non-empty message in \<open>error\<close> and
  the transaction list as it was. When the handler does end with an exception, the text is
  not the cause: either the name's patterns cannot be built, whatever the text, or the
  storage failed after the transaction was accepted.
\<close>

theorem rejections_are_values:
  assumes "handleAddTransaction w st = (out, st')"
  shows "(rejection out \<longrightarrow> error st' \<noteq> [] \<and> transactions st' = transactions st)
    \<and> (\<forall>f. out = Threw f \<longrightarrow>
          (f = StorageFailure \<and> \<not> storage_ok w)
          \<or> (\<forall>text. isUserReceiver (userName st) text = Inl f))"
  using handleAddTransaction_cases [OF assms] acceptCredit_cases [of w st out st']
  by (auto simp: rejection_def)

theorem rejections_are_values_witness:
  "handleAddTransaction (world_at ''2025-01-02T03:04:05.678Z'') (state_with [] ''Debit N500'' [])
     = (DebitRejected,
        (state_with [] ''Debit N500'' [])
          \<lparr>showDebitPopup := True,
           error := ''Debit detected! Only credit income alerts are accepted.''\<rparr>)
   \<and> rejection DebitRejected
   \<and> error ((state_with [] ''Debit N500'' [])
          \<lparr>showDebitPopup := True,
           error := ''Debit detected! Only credit income alerts are accepted.''\<rparr>) \<noteq> []
   \<and> transactions ((state_with [] ''Debit N500'' [])
          \<lparr>showDebitPopup := True,
           error := ''Debit detected! Only credit income alerts are accepted.''\<rparr>)
       = transactions (state_with [] ''Debit N500'' [])"
proof -
  have h: "handleAddTransaction (world_at ''2025-01-02T03:04:05.678Z'') (state_with [] ''Debit N500'' [])
     = (DebitRejected,
        (state_with [] ''Debit N500'' [])
          \<lparr>showDebitPopup := True,
           error := ''Debit detected! Only credit income alerts are accepted.''\<rparr>)"
    by code_simp
  have r: "rejection DebitRejected" by (simp add: rejection_def)
  from rejections_are_values [OF h] r h show ?thesis by blast
qed

text \<open>
  C8. \<open>acceptCredit\<close> leaves the ledger as it was when the extracted amount is not positive,
  and what it appends otherwise has a positive amount: a ledger whose amounts are all
  positive stays so through \<open>acceptCredit\<close> and through the handler.
\<close>

theorem positive_ledger_preserved:
  assumes "positive_ledger st"
  shows "positive_ledger (snd (acceptCredit w st))
    \<and> positive_ledger (snd (handleAddTransaction w st))
    \<and> (amount (parseSMS w (smsText st)) \<le> 0 \<longrightarrow>
         transactions (snd (acceptCredit w st)) = transactions st)"
proof -
  have a: "positive_ledger (snd (acceptCredit w st))"
    using assms acceptCredit_cases [of w st "fst (acceptCredit w st)" "snd (acceptCredit w st)"]
    by (auto simp: positive_ledger_def)
  have "positive_ledger (snd (handleAddTransaction w st))"
    using assms a
      handleAddTransaction_cases [of w st "fst (handleAddTransaction w st)"
        "snd (handleAddTransaction w st)"]
    by (auto simp: positive_ledger_def)
  moreover have "amount (parseSMS w (smsText st)) \<le> 0 \<longrightarrow>
      transactions (snd (acceptCredit w st)) = transactions st"
    by (simp add: acceptCredit_def Let_def flashError_def)
  ultimately show ?thesis using a by blast
qed

theorem positive_ledger_preserved_witness:
  "positive_ledger (state_with [] ''Credit N7'' ledger0)
   \<and> positive_ledger (snd (acceptCredit (world_at ''2025-01-02T03:04:05.678Z'')
                               (state_with [] ''Credit N7'' ledger0)))
   \<and> positive_ledger (snd (handleAddTransaction (world_at ''2025-01-02T03:04:05.678Z'')
                               (state_with [] ''Credit N7'' ledger0)))
   \<and> map amount (transactions (snd (handleAddTransaction (world_at ''2025-01-02T03:04:05.678Z'')
                               (state_with [] ''Credit N7'' ledger0)))) = [7, 5]
   \<and> positive_ledger (state_with [] ''Credit N0'' ledger0)
   \<and> amount (parseSMS (world_at ''2025-01-02T03:04:05.678Z'') ''Credit N0'') \<le> 0
   \<and> transactions (snd (acceptCredit (world_at ''2025-01-02T03:04:05.678Z'')
                               (state_with [] ''Credit N0'' ledger0))) = ledger0"
proof -
  let ?w = "world_at ''2025-01-02T03:04:05.678Z''"
  have p: "positive_ledger (state_with [] ''Credit N7'' ledger0)"
    "positive_ledger (state_with [] ''Credit N0'' ledger0)"
    by (simp_all add: positive_ledger_def state_with_def ledger0_def)
  have a: "map amount (transactions (snd (handleAddTransaction ?w
      (state_with [] ''Credit N7'' ledger0)))) = [7, 5]"
    by code_simp
  have z: "amount (parseSMS ?w (smsText (state_with [] ''Credit N0'' ledger0))) \<le> 0"
    by code_simp
  then have z': "amount (parseSMS ?w ''Credit N0'') \<le> 0"
    by (simp add: state_with_def)
  from positive_ledger_preserved [OF p(1), of ?w] positive_ledger_preserved [OF p(2), of ?w] z
  have "positive_ledger (snd (acceptCredit ?w (state_with [] ''Credit N7'' ledger0)))"
    and "positive_ledger (snd (handleAddTransaction ?w (state_with [] ''Credit N7'' ledger0)))"
    and "transactions (snd (acceptCredit ?w (state_with [] ''Credit N0'' ledger0)))
          = transactions (state_with [] ''Credit N0'' ledger0)"
    by blast+
  with p a z' show ?thesis by (simp add: state_with_def)
qed

end
